theory Spec2Isabelle
  imports Main "HOL-Library.AList"
begin

section \<open>JSON values and the Python operations on them\<close>

text \<open>
  The program keeps everything it handles (the credential record, token responses, list
  pages, the cross-reference document) as the values \<^verbatim>\<open>json.load\<close> produces. A Python
  \<^verbatim>\<open>dict\<close> is an association list with distinct keys in insertion order; \<^verbatim>\<open>None\<close> and
  JSON \<^verbatim>\<open>null\<close> are the same value. Numbers are Python's unbounded integers; numbers
  with a fraction or an exponent are outside the model, and strings are ASCII.
\<close>

datatype json =
    JNull
  | JBool bool
  | JInt int
  | JStr string
  | JList "json list"
  | JObj "(string \<times> json) list"

type_synonym pydict = "(string \<times> json) list"

datatype error =
    ConfigError            \<comment> \<open>RuntimeError: client_id and client_secret must be present\<close>
  | NoCredentialPath       \<comment> \<open>RuntimeError: Could not obtain access token\<close>
  | MissingAccessToken     \<comment> \<open>RuntimeError: token response didn't include access_token\<close>
  | FetchFailed int string \<comment> \<open>RuntimeError: Failed to fetch animelist: status text\<close>
  | RequestError           \<comment> \<open>\<^verbatim>\<open>requests\<close> raised: no answer, time-out, unusable URL\<close>
  | HTTPError int          \<comment> \<open>\<^verbatim>\<open>raise_for_status\<close>\<close>
  | JSONDecodeError        \<comment> \<open>\<^verbatim>\<open>resp.json()\<close> on a body that is not JSON\<close>
  | TypeError
  | ValueError
  | AttributeError

text \<open>Truthiness, as \<^verbatim>\<open>if x:\<close> and \<^verbatim>\<open>not x\<close> test it.\<close>

fun truthy :: "json \<Rightarrow> bool" where
  "truthy JNull = False"
| "truthy (JBool b) = b"
| "truthy (JInt n) = (n \<noteq> 0)"
| "truthy (JStr s) = (s \<noteq> [])"
| "truthy (JList xs) = (xs \<noteq> [])"
| "truthy (JObj kvs) = (kvs \<noteq> [])"

text \<open>\<^verbatim>\<open>d.get(k, default)\<close> on a dict; \<^verbatim>\<open>d.get(k)\<close> is \<^verbatim>\<open>d.get(k, None)\<close>.\<close>

definition dict_get :: "pydict \<Rightarrow> string \<Rightarrow> json \<Rightarrow> json" where
  "dict_get d k dflt = (case map_of d k of None \<Rightarrow> dflt | Some v \<Rightarrow> v)"

text \<open>\<^verbatim>\<open>x.get(k, default)\<close> on any value: only a dict has the method.\<close>

fun py_get :: "json \<Rightarrow> string \<Rightarrow> json \<Rightarrow> error + json" where
  "py_get (JObj d) k dflt = Inr (dict_get d k dflt)"
| "py_get _ k dflt = Inl AttributeError"

subsection \<open>\<^verbatim>\<open>int(x)\<close>\<close>

text \<open>
  On an ASCII string \<^verbatim>\<open>int\<close> skips, at both ends, the six characters C's \<^verbatim>\<open>isspace\<close> accepts:
  the space and the controls 9 to 13. The separators 28 to 31 are not among them.
\<close>

definition is_space :: "char \<Rightarrow> bool" where
  "is_space c \<longleftrightarrow>
     c \<in> set [CHR '' '', CHR 0x09, CHR 0x0A, CHR 0x0B, CHR 0x0C, CHR 0x0D]"

definition is_digit :: "char \<Rightarrow> bool" where
  "is_digit c \<longleftrightarrow> (48::nat) \<le> of_char c \<and> (of_char c :: nat) \<le> 57"

definition digit_val :: "char \<Rightarrow> int" where
  "digit_val c = int (of_char c) - 48"

text \<open>
  The digits of a decimal literal: underscores are allowed singly and only between two
  digits. The flag says whether the previous character was a digit.
\<close>

fun str_digits :: "string \<Rightarrow> bool \<Rightarrow> int \<Rightarrow> int option" where
  "str_digits [] p a = (if p then Some a else None)"
| "str_digits (c # cs) p a =
     (if is_digit c then str_digits cs True (10 * a + digit_val c)
      else if c = CHR ''_'' \<and> p then str_digits cs False a
      else None)"

definition strip :: "string \<Rightarrow> string" where
  "strip s = rev (dropWhile is_space (rev (dropWhile is_space s)))"

text \<open>
  The interpreter refuses to convert a string of more than \<^verbatim>\<open>sys.get_int_max_str_digits()\<close>
  digits, 4300 unless configured otherwise, which the program never does. Underscores and
  the sign do not count.
\<close>

definition MAX_STR_DIGITS :: nat where
  "MAX_STR_DIGITS = 4300"

definition int_of_str :: "string \<Rightarrow> int option" where
  "int_of_str s =
     (case strip s of
        [] \<Rightarrow> None
      | c # cs \<Rightarrow>
          if MAX_STR_DIGITS < length (filter is_digit (c # cs)) then None
          else if c = CHR ''-'' then map_option uminus (str_digits cs False 0)
          else if c = CHR ''+'' then str_digits cs False 0
          else str_digits (c # cs) False 0)"

fun py_int :: "json \<Rightarrow> error + int" where
  "py_int (JInt n) = Inr n"
| "py_int (JBool b) = Inr (if b then 1 else 0)"
| "py_int (JStr s) = (case int_of_str s of None \<Rightarrow> Inl ValueError | Some n \<Rightarrow> Inr n)"
| "py_int JNull = Inl TypeError"
| "py_int (JList xs) = Inl TypeError"
| "py_int (JObj kvs) = Inl TypeError"

section \<open>The process state and its surroundings\<close>

text \<open>
  One answer of an upstream server: how many seconds the exchange took, the status
  code, the body as text and what \<^verbatim>\<open>resp.json()\<close> makes of it (nothing when the body is
  not JSON).
\<close>

record reply =
  elapsed :: nat
  status :: int
  body_text :: string
  payload :: "json option"

text \<open>
  A request as it leaves the process: a form POST (URL, form fields) or a GET (URL, query
  parameters, and the token of the \<^verbatim>\<open>Authorization: Bearer\<close> header when the request has
  one).
\<close>

datatype request =
    Post string pydict
  | Get json pydict "json option"

text \<open>The messages the code hands to \<^verbatim>\<open>app.logger\<close>.\<close>

datatype log_msg =
    RefreshFailed int string
  | CodeFailed int string
  | AttemptRefresh
  | AttemptCode
  | StoredToken
  | Received401
  | FetchFailedLog int string

text \<open>
  \<open>config\<close> is the module's global dict and \<open>disk\<close> the file at \<^verbatim>\<open>CONFIG_PATH\<close> (absent,
  or holding a JSON object). \<open>clock\<close> is what \<^verbatim>\<open>time.time()\<close> reads, in whole seconds.
  \<open>net\<close> is the sequence of answers the upstream servers are going to give, in the order
  the requests are made; a request that finds it empty raises, and this stands for every
  way \<^verbatim>\<open>requests\<close> can raise. \<open>sent\<close> and \<open>logs\<close> record the requests made and the messages
  logged, oldest first. An exception does not undo any of this, so every operation
  returns the state together with its result or error.
\<close>

record world =
  config :: pydict
  disk :: "pydict option"
  clock :: int
  net :: "reply list"
  sent :: "request list"
  logs :: "log_msg list"

type_synonym 'a outcome = "(error + 'a) \<times> world"

definition MAL_TOKEN_URL :: string where
  "MAL_TOKEN_URL = ''https://myanimelist.net/v1/oauth2/token''"

definition MAL_API_BASE :: string where
  "MAL_API_BASE = ''https://api.myanimelist.net/v2/''"

definition ANIME_IDS_RAW_URL :: string where
  "ANIME_IDS_RAW_URL =
     ''https://raw.githubusercontent.com/Kometa-Team/Anime-IDs/master/anime_ids.json''"

definition log_append :: "log_msg \<Rightarrow> world \<Rightarrow> world" where
  "log_append m w = w\<lparr>logs := logs w @ [m]\<rparr>"

text \<open>The next answer of the network, for a request already recorded in \<open>sent\<close>.\<close>

definition receive :: "world \<Rightarrow> reply outcome" where
  "receive w =
     (case net w of
        [] \<Rightarrow> (Inl RequestError, w)
      | r # rs \<Rightarrow> (Inr r, w\<lparr>clock := clock w + int (elapsed r), net := rs\<rparr>))"

definition requests_post :: "string \<Rightarrow> pydict \<Rightarrow> world \<Rightarrow> reply outcome" where
  "requests_post url form w = receive (w\<lparr>sent := sent w @ [Post url form]\<rparr>)"

text \<open>A URL that is not a string never reaches a server: \<^verbatim>\<open>requests\<close> raises.\<close>

definition requests_get :: "json \<Rightarrow> pydict \<Rightarrow> json option \<Rightarrow> world \<Rightarrow> reply outcome" where
  "requests_get url params token w =
     (case url of
        JStr u \<Rightarrow> receive (w\<lparr>sent := sent w @ [Get url params token]\<rparr>)
      | _ \<Rightarrow> (Inl RequestError, w))"

definition resp_json :: "reply \<Rightarrow> error + json" where
  "resp_json r = (case payload r of None \<Rightarrow> Inl JSONDecodeError | Some j \<Rightarrow> Inr j)"

section \<open>Credential store\<close>

definition load_config :: "world \<Rightarrow> world" where
  "load_config w = w\<lparr>config := (case disk w of Some c \<Rightarrow> c | None \<Rightarrow> [])\<rparr>"

definition save_config :: "world \<Rightarrow> world" where
  "save_config w = w\<lparr>disk := Some (config w)\<rparr>"

definition now_ts :: "world \<Rightarrow> int" where
  "now_ts w = clock w"

section \<open>Token manager\<close>

definition token_is_valid :: "world \<Rightarrow> error + bool" where
  "token_is_valid w =
     (let at = dict_get (config w) ''access_token'' JNull;
          exp = dict_get (config w) ''expires_at'' (JInt 0)
      in if \<not> truthy at then Inr False
         else case py_int exp of
                Inl e \<Rightarrow> Inl e
              | Inr n \<Rightarrow> Inr (now_ts w + 60 < n))"

text \<open>Both exchanges return the parsed body on status 200 and \<^verbatim>\<open>None\<close> otherwise.\<close>

definition request_token_with_refresh :: "json \<Rightarrow> json \<Rightarrow> json \<Rightarrow> world \<Rightarrow> json outcome" where
  "request_token_with_refresh refresh_token client_id client_secret w =
     (case requests_post MAL_TOKEN_URL
             [(''grant_type'', JStr ''refresh_token''),
              (''client_id'', client_id),
              (''client_secret'', client_secret),
              (''refresh_token'', refresh_token)] w of
        (Inl e, w1) \<Rightarrow> (Inl e, w1)
      | (Inr resp, w1) \<Rightarrow>
          if status resp = 200 then (resp_json resp, w1)
          else (Inr JNull, log_append (RefreshFailed (status resp) (body_text resp)) w1))"

definition request_token_with_code :: "json \<Rightarrow> json \<Rightarrow> json \<Rightarrow> json \<Rightarrow> world \<Rightarrow> json outcome" where
  "request_token_with_code code code_verifier client_id client_secret w =
     (case requests_post MAL_TOKEN_URL
             [(''grant_type'', JStr ''authorization_code''),
              (''code'', code),
              (''code_verifier'', code_verifier),
              (''client_id'', client_id),
              (''client_secret'', client_secret)] w of
        (Inl e, w1) \<Rightarrow> (Inl e, w1)
      | (Inr resp, w1) \<Rightarrow>
          if status resp = 200 then (resp_json resp, w1)
          else (Inr JNull, log_append (CodeFailed (status resp) (body_text resp)) w1))"

definition apply_token_response :: "json \<Rightarrow> world \<Rightarrow> unit outcome" where
  "apply_token_response token_resp w =
     (case py_get token_resp ''access_token'' JNull of
        Inl e \<Rightarrow> (Inl e, w)
      | Inr access_token \<Rightarrow>
     (case py_get token_resp ''refresh_token'' JNull of
        Inl e \<Rightarrow> (Inl e, w)
      | Inr refresh_token \<Rightarrow>
     (case py_get token_resp ''expires_in'' (JInt 0) of
        Inl e \<Rightarrow> (Inl e, w)
      | Inr expires_in \<Rightarrow>
          if \<not> truthy access_token then (Inl MissingAccessToken, w)
          else
            let w1 = w\<lparr>config := AList.update ''access_token'' access_token (config w)\<rparr>;
                w2 = (if truthy refresh_token
                      then w1\<lparr>config := AList.update ''refresh_token'' refresh_token (config w1)\<rparr>
                      else w1)
            in (case py_int expires_in of
                  Inl e \<Rightarrow> (Inl e, w2)
                | Inr n \<Rightarrow>
                    let w3 = w2\<lparr>config :=
                                 AList.update ''expires_at'' (JInt (now_ts w2 + n)) (config w2)\<rparr>
                    in (Inr (), log_append StoredToken (save_config w3))))))"

text \<open>
  The second half of \<^verbatim>\<open>ensure_token\<close>, reached when there is no refresh token or the
  refresh exchange gave nothing: the authorization-code exchange, then the final error.
\<close>

definition ensure_token_code_flow :: "json \<Rightarrow> json \<Rightarrow> world \<Rightarrow> unit outcome" where
  "ensure_token_code_flow client_id client_secret w =
     (let authorization_code = dict_get (config w) ''authorization_code'' JNull;
          code_verifier = dict_get (config w) ''code_verifier'' JNull
      in if truthy authorization_code \<and> truthy code_verifier then
           (case request_token_with_code authorization_code code_verifier
                   client_id client_secret (log_append AttemptCode w) of
              (Inl e, w1) \<Rightarrow> (Inl e, w1)
            | (Inr token_resp, w1) \<Rightarrow>
                if truthy token_resp then apply_token_response token_resp w1
                else (Inl NoCredentialPath, w1))
         else (Inl NoCredentialPath, w))"

definition ensure_token :: "world \<Rightarrow> unit outcome" where
  "ensure_token w0 =
     (let w = load_config w0 in
      case token_is_valid w of
        Inl e \<Rightarrow> (Inl e, w)
      | Inr True \<Rightarrow> (Inr (), w)
      | Inr False \<Rightarrow>
          let client_id = dict_get (config w) ''client_id'' JNull;
              client_secret = dict_get (config w) ''client_secret'' JNull
          in if \<not> truthy client_id \<or> \<not> truthy client_secret then (Inl ConfigError, w)
             else
               let refresh_token = dict_get (config w) ''refresh_token'' JNull
               in if truthy refresh_token then
                    (case request_token_with_refresh refresh_token client_id client_secret
                            (log_append AttemptRefresh w) of
                       (Inl e, w1) \<Rightarrow> (Inl e, w1)
                     | (Inr token_resp, w1) \<Rightarrow>
                         if truthy token_resp then apply_token_response token_resp w1
                         else ensure_token_code_flow client_id client_secret w1)
                  else ensure_token_code_flow client_id client_secret w)"

section \<open>List fetcher\<close>

text \<open>
  The block under \<^verbatim>\<open>if resp.status_code == 401\<close>: log, drop the access token, save, get a
  token again and repeat the request, this time without the \<^verbatim>\<open>params\<close> argument. It gives
  back the new response and the token now in the header.
\<close>

definition refresh_and_retry :: "json \<Rightarrow> world \<Rightarrow> (reply \<times> json) outcome" where
  "refresh_and_retry url w =
     (let w1 = log_append Received401 w;
          w2 = save_config (w1\<lparr>config := AList.delete ''access_token'' (config w1)\<rparr>)
      in case ensure_token w2 of
           (Inl e, w3) \<Rightarrow> (Inl e, w3)
         | (Inr u, w3) \<Rightarrow>
             let token = dict_get (config w3) ''access_token'' JNull
             in (case requests_get url [] (Some token) w3 of
                   (Inl e, w4) \<Rightarrow> (Inl e, w4)
                 | (Inr resp, w4) \<Rightarrow> (Inr (resp, token), w4)))"

text \<open>
  \<^verbatim>\<open>items.extend(x)\<close> takes the elements of a list, the keys of a dict or the characters
  of a string, and raises on anything else.
\<close>

fun py_iter :: "json \<Rightarrow> error + json list" where
  "py_iter (JList xs) = Inr xs"
| "py_iter (JObj kvs) = Inr (map (\<lambda>kv. JStr (fst kv)) kvs)"
| "py_iter (JStr s) = Inr (map (\<lambda>c. JStr [c]) s)"
| "py_iter _ = Inl TypeError"

text \<open>What the loop reads from a page with status 200: its items and the next URL.\<close>

definition read_page :: "reply \<Rightarrow> error + (json list \<times> json)" where
  "read_page resp =
     (case resp_json resp of
        Inl e \<Rightarrow> Inl e
      | Inr data \<Rightarrow>
     (case py_get data ''data'' (JList []) of
        Inl e \<Rightarrow> Inl e
      | Inr page_items \<Rightarrow>
     (case py_iter page_items of
        Inl e \<Rightarrow> Inl e
      | Inr batch \<Rightarrow>
     (case py_get data ''paging'' (JObj []) of
        Inl e \<Rightarrow> Inl e
      | Inr paging \<Rightarrow>
     (case py_get paging ''next'' JNull of
        Inl e \<Rightarrow> Inl e
      | Inr next_url \<Rightarrow> Inr (batch, next_url))))))"

text \<open>
  One turn of the \<^verbatim>\<open>while url\<close> loop: the page's items, the next URL and the token the
  header holds afterwards.
\<close>

definition fetch_page :: "json \<Rightarrow> pydict \<Rightarrow> json \<Rightarrow> world \<Rightarrow> (json list \<times> json \<times> json) outcome" where
  "fetch_page url params token w =
     (case requests_get url params (Some token) w of
        (Inl e, w1) \<Rightarrow> (Inl e, w1)
      | (Inr resp, w1) \<Rightarrow>
     (case (if status resp = 401 then refresh_and_retry url w1 else (Inr (resp, token), w1)) of
        (Inl e, w2) \<Rightarrow> (Inl e, w2)
      | (Inr (resp2, token2), w2) \<Rightarrow>
          if status resp2 \<noteq> 200
          then (Inl (FetchFailed (status resp2) (body_text resp2)),
                log_append (FetchFailedLog (status resp2) (body_text resp2)) w2)
          else (case read_page resp2 of
                  Inl e \<Rightarrow> (Inl e, w2)
                | Inr (batch, next_url) \<Rightarrow> (Inr (batch, next_url, token2), w2))))"

function fetch_loop :: "json \<Rightarrow> pydict \<Rightarrow> json \<Rightarrow> json list \<Rightarrow> world \<Rightarrow> (json list) outcome" where
  "fetch_loop url params token items w =
     (if \<not> truthy url then (Inr items, w)
      else case fetch_page url params token w of
             (Inl e, w1) \<Rightarrow> (Inl e, w1)
           | (Inr (batch, next_url, token1), w1) \<Rightarrow>
               fetch_loop next_url [] token1 (items @ batch) w1)"
  by pat_completeness auto

text \<open>The first URL is \<^verbatim>\<open>urljoin\<close> of the base and the path, for a plain user name.\<close>

definition fetch_all_animelist :: "string \<Rightarrow> string \<Rightarrow> world \<Rightarrow> (json list) outcome" where
  "fetch_all_animelist username status_arg w =
     (case ensure_token w of
        (Inl e, w1) \<Rightarrow> (Inl e, w1)
      | (Inr u, w1) \<Rightarrow>
          let token = dict_get (config w1) ''access_token'' JNull;
              url = JStr (MAL_API_BASE @ ''users/'' @ username @ ''/animelist'');
              params = [(''status'', JStr status_arg), (''limit'', JInt 100)]
          in fetch_loop url params token [] w1)"

text \<open>
  Three readings of a state, for the claims about the 401 block. \<open>recoveries\<close> is the number
  of times the block has been entered, each entry being logged first thing; \<open>gets\<close> is the
  number of GET requests made; \<open>unauthorized\<close> counts the answers with status 401 in a run
  of answers. \<open>token_discarded\<close> is the state in which the block calls \<^verbatim>\<open>ensure_token\<close>:
  logged, the \<^verbatim>\<open>access_token\<close> popped, the record saved.
\<close>

definition recoveries :: "world \<Rightarrow> nat" where
  "recoveries w = length (filter (\<lambda>m. m = Received401) (logs w))"

definition unauthorized :: "reply list \<Rightarrow> nat" where
  "unauthorized rs = length (filter (\<lambda>r. status r = 401) rs)"

fun is_get :: "request \<Rightarrow> bool" where
  "is_get (Get url params token) = True"
| "is_get (Post url form) = False"

definition gets :: "world \<Rightarrow> nat" where
  "gets w = length (filter is_get (sent w))"

definition token_discarded :: "world \<Rightarrow> world" where
  "token_discarded w =
     save_config ((log_append Received401 w)
       \<lparr>config := AList.delete ''access_token'' (config (log_append Received401 w))\<rparr>)"

section \<open>Cross-reference loader\<close>

text \<open>The \<^verbatim>\<open>for key, val in payload.items()\<close> loop, with \<open>mal_map\<close> as it grows.\<close>

fun mal_map_loop :: "pydict \<Rightarrow> (int \<times> json) list \<Rightarrow> (int \<times> json) list" where
  "mal_map_loop [] mal_map = mal_map"
| "mal_map_loop ((key, val) # rest) mal_map =
     (let mal_id =
            (case val of
               JObj d \<Rightarrow>
                 (case map_of d ''mal_id'' of
                    None \<Rightarrow> None
                  | Some x \<Rightarrow> (case py_int x of Inl e \<Rightarrow> None | Inr n \<Rightarrow> Some n))
             | _ \<Rightarrow> None)
      in case mal_id of
           Some n \<Rightarrow> mal_map_loop rest (AList.update n val mal_map)
         | None \<Rightarrow>
             (case py_int (JStr key) of
                Inl e \<Rightarrow> mal_map_loop rest mal_map
              | Inr n \<Rightarrow> mal_map_loop rest (AList.update n val mal_map)))"

definition fetch_anime_ids_map :: "world \<Rightarrow> ((int \<times> json) list) outcome" where
  "fetch_anime_ids_map w =
     (case requests_get (JStr ANIME_IDS_RAW_URL) [] None w of
        (Inl e, w1) \<Rightarrow> (Inl e, w1)
      | (Inr resp, w1) \<Rightarrow>
          if 400 \<le> status resp \<and> status resp < 600 then (Inl (HTTPError (status resp)), w1)
          else (case resp_json resp of
                  Inl e \<Rightarrow> (Inl e, w1)
                | Inr (JObj doc) \<Rightarrow> (Inr (mal_map_loop doc []), w1)
                | Inr _ \<Rightarrow> (Inl AttributeError, w1)))"

text \<open>
  The key of a document entry as the specification words it: the entry's own
  \<^verbatim>\<open>mal_id\<close> field when the value is a record that has one and \<^verbatim>\<open>int\<close> reads it,
  otherwise the entry's string key when \<^verbatim>\<open>int\<close> reads that, otherwise none (the entry is
  skipped). \<open>spec_crossref_entries\<close> pairs each entry that has a key with it, in document
  order.
\<close>

definition spec_embedded_id :: "json \<Rightarrow> int option" where
  "spec_embedded_id val =
     (case val of
        JObj d \<Rightarrow>
          (case map_of d ''mal_id'' of
             None \<Rightarrow> None
           | Some x \<Rightarrow> (case py_int x of Inl e \<Rightarrow> None | Inr n \<Rightarrow> Some n))
      | _ \<Rightarrow> None)"

definition spec_crossref_key :: "string \<Rightarrow> json \<Rightarrow> int option" where
  "spec_crossref_key key val =
     (case spec_embedded_id val of
        Some n \<Rightarrow> Some n
      | None \<Rightarrow> int_of_str key)"

definition spec_crossref_entries :: "pydict \<Rightarrow> (int \<times> json) list" where
  "spec_crossref_entries doc =
     List.map_filter (\<lambda>(key, val). map_option (\<lambda>n. (n, val)) (spec_crossref_key key val)) doc"

section \<open>Enrichment merger\<close>

fun starts_with :: "string \<Rightarrow> string \<Rightarrow> bool" where
  "starts_with [] s = True"
| "starts_with (p # ps) [] = False"
| "starts_with (p # ps) (c # cs) = (p = c \<and> starts_with ps cs)"

fun is_substring :: "string \<Rightarrow> string \<Rightarrow> bool" where
  "is_substring p [] = (p = [])"
| "is_substring p (c # cs) = (starts_with p (c # cs) \<or> is_substring p cs)"

text \<open>
  \<^verbatim>\<open>k in x\<close> for a string \<open>k\<close>: a key of a dict, an element of a list, a substring of a
  string; any other \<open>x\<close> raises.
\<close>

fun py_contains :: "string \<Rightarrow> json \<Rightarrow> error + bool" where
  "py_contains k (JObj d) = Inr (map_of d k \<noteq> None)"
| "py_contains k (JList xs) = Inr (JStr k \<in> set xs)"
| "py_contains k (JStr s) = Inr (is_substring k s)"
| "py_contains k _ = Inl TypeError"

text \<open>
  The \<^verbatim>\<open>if mapped:\<close> block for one of the two fields: \<open>keep\<close> is the test the value must
  pass (\<^verbatim>\<open>not in (None, "")\<close> for \<^verbatim>\<open>tvdb_id\<close>, truthiness for \<^verbatim>\<open>imdb_id\<close>), \<open>out_key\<close> the key
  written to the entry.
\<close>

definition add_field ::
  "json \<Rightarrow> string \<Rightarrow> (json \<Rightarrow> bool) \<Rightarrow> string \<Rightarrow> pydict \<Rightarrow> error + pydict" where
  "add_field mapped k keep out_key entry =
     (case py_contains k mapped of
        Inl e \<Rightarrow> Inl e
      | Inr False \<Rightarrow> Inr entry
      | Inr True \<Rightarrow>
          (case py_get mapped k JNull of
             Inl e \<Rightarrow> Inl e
           | Inr v \<Rightarrow> Inr (if keep v then AList.update out_key v entry else entry)))"

text \<open>The loop body for one item: an error, no entry (\<^verbatim>\<open>continue\<close>) or the entry appended.\<close>

definition output_entry :: "json \<Rightarrow> (int \<times> json) list \<Rightarrow> error + pydict option" where
  "output_entry item anime_ids_map =
     (case py_get item ''node'' JNull of
        Inl e \<Rightarrow> Inl e
      | Inr n \<Rightarrow>
     (let node = (if truthy n then n else JObj []) in
      case py_get node ''id'' JNull of
        Inl e \<Rightarrow> Inl e
      | Inr mal_id \<Rightarrow>
     (case py_get node ''title'' JNull of
        Inl e \<Rightarrow> Inl e
      | Inr title \<Rightarrow>
          if \<not> truthy mal_id then Inr None
          else
            let entry = [(''title'', title), (''malId'', mal_id)]
            in (case py_int mal_id of
                  Inl e \<Rightarrow> Inl e
                | Inr i \<Rightarrow>
                    let mapped = (case map_of anime_ids_map i of None \<Rightarrow> JNull | Some v \<Rightarrow> v)
                    in if truthy mapped then
                         (case add_field mapped ''tvdb_id''
                                 (\<lambda>v. v \<noteq> JNull \<and> v \<noteq> JStr []) ''id'' entry of
                            Inl e \<Rightarrow> Inl e
                          | Inr entry1 \<Rightarrow>
                              (case add_field mapped ''imdb_id'' truthy ''imdb_id'' entry1 of
                                 Inl e \<Rightarrow> Inl e
                               | Inr entry2 \<Rightarrow> Inr (Some entry2)))
                       else Inr (Some entry)))))"

fun build_loop :: "json list \<Rightarrow> (int \<times> json) list \<Rightarrow> pydict list \<Rightarrow> error + pydict list" where
  "build_loop [] anime_ids_map out = Inr out"
| "build_loop (item # rest) anime_ids_map out =
     (case output_entry item anime_ids_map of
        Inl e \<Rightarrow> Inl e
      | Inr None \<Rightarrow> build_loop rest anime_ids_map out
      | Inr (Some entry) \<Rightarrow> build_loop rest anime_ids_map (out @ [entry]))"

definition build_output_list :: "json list \<Rightarrow> (int \<times> json) list \<Rightarrow> error + pydict list" where
  "build_output_list animelist_items anime_ids_map = build_loop animelist_items anime_ids_map []"

text \<open>
  What the loop reads from an item: its node (\<^verbatim>\<open>{}\<close> when absent or falsy), the identifier,
  and the entry it starts from. \<open>well_merged\<close> says an output entry belongs to an item: the
  two base fields first, then at most the keys \<^verbatim>\<open>id\<close> and \<^verbatim>\<open>imdb_id\<close>, and nothing when the
  map has no record under the identifier. \<open>unmatched\<close> is an item with a usable identifier
  that the map has no record for.
\<close>

definition item_node :: "json \<Rightarrow> pydict" where
  "item_node item =
     (case item of
        JObj d \<Rightarrow> (case dict_get d ''node'' JNull of JObj nd \<Rightarrow> nd | _ \<Rightarrow> [])
      | _ \<Rightarrow> [])"

definition item_id :: "json \<Rightarrow> json" where
  "item_id item = dict_get (item_node item) ''id'' JNull"

definition base_entry :: "json \<Rightarrow> pydict" where
  "base_entry item =
     [(''title'', dict_get (item_node item) ''title'' JNull), (''malId'', item_id item)]"

definition well_merged :: "(int \<times> json) list \<Rightarrow> json \<Rightarrow> pydict \<Rightarrow> bool" where
  "well_merged anime_ids_map item entry \<longleftrightarrow>
     (\<exists>extras. entry = base_entry item @ extras
        \<and> set (map fst extras) \<subseteq> {''id'', ''imdb_id''}
        \<and> ((\<exists>i. py_int (item_id item) = Inr i \<and> map_of anime_ids_map i = None) \<longrightarrow> extras = []))"

definition unmatched :: "(int \<times> json) list \<Rightarrow> json \<Rightarrow> bool" where
  "unmatched anime_ids_map item \<longleftrightarrow>
     (case item of
        JObj d \<Rightarrow>
          (case dict_get d ''node'' JNull of
             JObj nd \<Rightarrow>
               truthy (dict_get nd ''id'' JNull)
               \<and> (case py_int (dict_get nd ''id'' JNull) of
                      Inl e \<Rightarrow> False
                    | Inr i \<Rightarrow> map_of anime_ids_map i = None)
           | _ \<Rightarrow> False)
      | _ \<Rightarrow> False)"

section \<open>Sample states\<close>

text \<open>
  A credential record with a refresh token and no access token yet, a state of the process
  at time 1000 that holds it, a token response without \<^verbatim>\<open>refresh_token\<close>, and the state after
  that response has been applied.
\<close>

definition cred0 :: pydict where
  "cred0 = [(''client_id'', JStr ''cid''), (''client_secret'', JStr ''sec''),
            (''refresh_token'', JStr ''r0''), (''username'', JStr ''spazus'')]"

definition world0 :: world where
  "world0 = \<lparr>config = cred0, disk = Some cred0, clock = 1000, net = [], sent = [], logs = []\<rparr>"

definition token_resp0 :: pydict where
  "token_resp0 = [(''token_type'', JStr ''Bearer''), (''expires_in'', JInt 3600),
                  (''access_token'', JStr ''a1'')]"

definition cred1 :: pydict where
  "cred1 = cred0 @ [(''access_token'', JStr ''a1''), (''expires_at'', JInt 4600)]"

definition world1 :: world where
  "world1 = \<lparr>config = cred1, disk = Some cred1, clock = 1000, net = [], sent = [],
              logs = [StoredToken]\<rparr>"

text \<open>
  A token response that brings a new \<^verbatim>\<open>refresh_token\<close> with the state it leaves, and one
  whose \<^verbatim>\<open>refresh_token\<close> is \<^verbatim>\<open>null\<close>.
\<close>

definition token_resp_rotating :: pydict where
  "token_resp_rotating = [(''access_token'', JStr ''a1''), (''refresh_token'', JStr ''r1''),
                          (''expires_in'', JInt 3600)]"

definition cred_rotated :: pydict where
  "cred_rotated = [(''client_id'', JStr ''cid''), (''client_secret'', JStr ''sec''),
                   (''refresh_token'', JStr ''r1''), (''username'', JStr ''spazus''),
                   (''access_token'', JStr ''a1''), (''expires_at'', JInt 4600)]"

definition world_rotated :: world where
  "world_rotated = \<lparr>config = cred_rotated, disk = Some cred_rotated, clock = 1000, net = [],
                     sent = [], logs = [StoredToken]\<rparr>"

definition token_resp_null :: pydict where
  "token_resp_null = [(''access_token'', JStr ''a1''), (''refresh_token'', JNull),
                      (''expires_in'', JInt 3600)]"

text \<open>
  The refresh exchange for \<open>cred0\<close>, and an answer with status 200 that takes one second.
  \<open>world_noexp\<close> is about to get a token response without \<^verbatim>\<open>expires_in\<close>, \<open>world_exch\<close> one
  that carries it; \<open>world_edge\<close> holds a token that expires exactly 60 seconds from now.
\<close>

definition refresh_form :: pydict where
  "refresh_form = [(''grant_type'', JStr ''refresh_token''), (''client_id'', JStr ''cid''),
                   (''client_secret'', JStr ''sec''), (''refresh_token'', JStr ''r0'')]"

definition reply_ok :: "json \<Rightarrow> reply" where
  "reply_ok j = \<lparr>elapsed = 1, status = 200, body_text = ''(json)'', payload = Some j\<rparr>"

definition world_noexp :: world where
  "world_noexp = \<lparr>config = [], disk = Some cred0, clock = 1000,
                   net = [reply_ok (JObj [(''access_token'', JStr ''a1'')])],
                   sent = [], logs = []\<rparr>"

definition cred_noexp :: pydict where
  "cred_noexp = cred0 @ [(''access_token'', JStr ''a1''), (''expires_at'', JInt 1001)]"

definition world_noexp_after :: world where
  "world_noexp_after = \<lparr>config = cred_noexp, disk = Some cred_noexp, clock = 1001, net = [],
                         sent = [Post MAL_TOKEN_URL refresh_form],
                         logs = [AttemptRefresh, StoredToken]\<rparr>"

definition world_exch :: world where
  "world_exch = \<lparr>config = [], disk = Some cred0, clock = 1000,
                  net = [reply_ok (JObj token_resp0)], sent = [], logs = []\<rparr>"

definition cred_exch :: pydict where
  "cred_exch = cred0 @ [(''access_token'', JStr ''a1''), (''expires_at'', JInt 4601)]"

definition world_exch_after :: world where
  "world_exch_after = \<lparr>config = cred_exch, disk = Some cred_exch, clock = 1001, net = [],
                        sent = [Post MAL_TOKEN_URL refresh_form],
                        logs = [AttemptRefresh, StoredToken]\<rparr>"

definition cred_edge :: pydict where
  "cred_edge = cred0 @ [(''access_token'', JStr ''a0''), (''expires_at'', JInt 1060)]"

definition world_edge :: world where
  "world_edge = \<lparr>config = cred_edge, disk = Some cred_edge, clock = 1000,
                  net = [reply_ok (JObj token_resp0)], sent = [], logs = []\<rparr>"

definition world_edge_after :: world where
  "world_edge_after = \<lparr>config = cred_exch, disk = Some cred_exch, clock = 1001, net = [],
                        sent = [Post MAL_TOKEN_URL refresh_form],
                        logs = [AttemptRefresh, StoredToken]\<rparr>"

text \<open>Two values of the cross-reference document, with and without a \<^verbatim>\<open>mal_id\<close> field.\<close>

definition doc_a :: json where
  "doc_a = JObj [(''mal_id'', JInt 42), (''imdb_id'', JStr ''tt1'')]"

definition doc_b :: json where
  "doc_b = JObj [(''imdb_id'', JStr ''tt2'')]"

text \<open>
  Three items of a watch list (the second with identifier 0), a cross-reference map that
  knows the first only, and the merged output.
\<close>

definition item_a :: json where
  "item_a = JObj [(''node'', JObj [(''id'', JInt 1), (''title'', JStr ''A'')]),
                  (''list_status'', JObj [(''status'', JStr ''watching'')])]"

definition item_z :: json where
  "item_z = JObj [(''node'', JObj [(''id'', JInt 0), (''title'', JStr ''Z'')])]"

definition item_c :: json where
  "item_c = JObj [(''node'', JObj [(''id'', JInt 7), (''title'', JStr ''C'')])]"

definition map0 :: "(int \<times> json) list" where
  "map0 = [(1, JObj [(''tvdb_id'', JInt 100), (''imdb_id'', JStr ''tt1'')])]"

definition out0 :: "pydict list" where
  "out0 = [[(''title'', JStr ''A''), (''malId'', JInt 1), (''id'', JInt 100),
            (''imdb_id'', JStr ''tt1'')],
           [(''title'', JStr ''C''), (''malId'', JInt 7)]]"

text \<open>
  A record with a token that is still valid for the program, an answer with status 401,
  and two pages of a list. In \<open>world_two401\<close> the server rejects the token at the first request
  of both pages and each refresh exchange succeeds; \<open>world_first_page\<close> is the state after the
  first turn of the loop and \<open>world_two401_after\<close> the state at the end. In \<open>world_401_twice\<close>
  the repeated request is rejected too; \<open>world_renewed\<close> is the state just before it.
\<close>

definition cred_valid :: pydict where
  "cred_valid = cred0 @ [(''access_token'', JStr ''a0''), (''expires_at'', JInt 9999)]"

definition reply_401 :: reply where
  "reply_401 = \<lparr>elapsed = 1, status = 401, body_text = ''unauthorized'', payload = None\<rparr>"

definition list_url :: string where
  "list_url = ''https://api.myanimelist.net/v2/users/spazus/animelist''"

definition next_page_url :: string where
  "next_page_url = ''https://api.myanimelist.net/v2/next''"

definition page1 :: json where
  "page1 = JObj [(''data'', JList [item_a]),
                 (''paging'', JObj [(''next'', JStr next_page_url)])]"

definition page2 :: json where
  "page2 = JObj [(''data'', JList [item_c]), (''paging'', JObj [])]"

definition cred_renewed :: "int \<Rightarrow> pydict" where
  "cred_renewed t = cred0 @ [(''expires_at'', JInt t), (''access_token'', JStr ''a1'')]"

definition world_two401_after :: world where
  "world_two401_after =
     \<lparr>config = cred_renewed 4605, disk = Some (cred_renewed 4605), clock = 1006, net = [],
      sent = [Get (JStr list_url) [(''status'', JStr ''watching''), (''limit'', JInt 100)]
                (Some (JStr ''a0'')),
              Post MAL_TOKEN_URL refresh_form,
              Get (JStr list_url) [] (Some (JStr ''a1'')),
              Get (JStr next_page_url) [] (Some (JStr ''a1'')),
              Post MAL_TOKEN_URL refresh_form,
              Get (JStr next_page_url) [] (Some (JStr ''a1''))],
      logs = [Received401, AttemptRefresh, StoredToken,
              Received401, AttemptRefresh, StoredToken]\<rparr>"

definition world_401_twice :: world where
  "world_401_twice = \<lparr>config = cred_valid, disk = Some cred_valid, clock = 1000,
       net = [reply_401, reply_ok (JObj token_resp0), reply_401], sent = [], logs = []\<rparr>"

definition world_renewed :: world where
  "world_renewed =
     \<lparr>config = cred_renewed 4602, disk = Some (cred_renewed 4602), clock = 1002,
      net = [reply_401],
      sent = [Get (JStr next_page_url) [] (Some (JStr ''a0'')), Post MAL_TOKEN_URL refresh_form],
      logs = [Received401, AttemptRefresh, StoredToken]\<rparr>"

definition world_401_twice_after :: world where
  "world_401_twice_after =
     \<lparr>config = cred_renewed 4602, disk = Some (cred_renewed 4602), clock = 1003, net = [],
      sent = [Get (JStr next_page_url) [] (Some (JStr ''a0'')), Post MAL_TOKEN_URL refresh_form,
              Get (JStr next_page_url) [] (Some (JStr ''a1''))],
      logs = [Received401, AttemptRefresh, StoredToken, FetchFailedLog 401 ''unauthorized'']\<rparr>"

definition world_two401 :: world where
  "world_two401 = \<lparr>config = cred_valid, disk = Some cred_valid, clock = 1000,
       net = [reply_401, reply_ok (JObj token_resp0), reply_ok page1,
              reply_401, reply_ok (JObj token_resp0), reply_ok page2],
       sent = [], logs = []\<rparr>"


definition world_first_page :: world where
  "world_first_page =
     \<lparr>config = cred_renewed 4602, disk = Some (cred_renewed 4602), clock = 1003,
      net = [reply_401, reply_ok (JObj token_resp0), reply_ok page2],
      sent = [Get (JStr list_url) [(''status'', JStr ''watching''), (''limit'', JInt 100)]
                (Some (JStr ''a0'')),
              Post MAL_TOKEN_URL refresh_form,
              Get (JStr list_url) [] (Some (JStr ''a1''))],
      logs = [Received401, AttemptRefresh, StoredToken]\<rparr>"

text \<open>
  In \<open>world_late_401\<close> the first page is served and the token is rejected on the second page,
  before and after the refresh.
\<close>

definition world_late_401 :: world where
  "world_late_401 = \<lparr>config = cred_valid, disk = Some cred_valid, clock = 1000,
       net = [reply_ok page1, reply_401, reply_ok (JObj token_resp0), reply_401],
       sent = [], logs = []\<rparr>"

definition world_late_401_after :: world where
  "world_late_401_after =
     \<lparr>config = cred_renewed 4603, disk = Some (cred_renewed 4603), clock = 1004, net = [],
      sent = [Get (JStr list_url) [(''status'', JStr ''watching''), (''limit'', JInt 100)]
                (Some (JStr ''a0'')),
              Get (JStr next_page_url) [] (Some (JStr ''a0'')),
              Post MAL_TOKEN_URL refresh_form,
              Get (JStr next_page_url) [] (Some (JStr ''a1''))],
      logs = [Received401, AttemptRefresh, StoredToken, FetchFailedLog 401 ''unauthorized'']\<rparr>"

section \<open>The loop over the pages ends\<close>

text \<open>
  No operation puts an answer back: the answers still to come never get more, and a request
  that was answered has used one up. So each turn of the page loop that goes on to a next
  page leaves fewer answers than it found.
\<close>

lemma receive_net:
  "receive w = (x, w') \<Longrightarrow> length (net w') \<le> length (net w)"
  by (auto simp: receive_def split: list.splits)

lemma receive_Inr_net:
  "receive w = (Inr r, w') \<Longrightarrow> length (net w') < length (net w)"
  by (auto simp: receive_def split: list.splits)

lemma requests_post_net:
  "requests_post url form w = (x, w') \<Longrightarrow> length (net w') \<le> length (net w)"
  by (auto simp: requests_post_def dest: receive_net)

lemma requests_get_net:
  "requests_get url params token w = (x, w') \<Longrightarrow> length (net w') \<le> length (net w)"
  by (auto simp: requests_get_def split: json.splits dest: receive_net)

lemma requests_get_Inr_net:
  "requests_get url params token w = (Inr r, w') \<Longrightarrow> length (net w') < length (net w)"
  by (auto simp: requests_get_def split: json.splits dest: receive_Inr_net)

lemma request_token_with_refresh_net:
  "request_token_with_refresh rt ci cs w = (x, w') \<Longrightarrow> length (net w') \<le> length (net w)"
  by (auto simp: request_token_with_refresh_def log_append_def
           split: prod.splits sum.splits if_splits dest: requests_post_net)

lemma request_token_with_code_net:
  "request_token_with_code c cv ci cs w = (x, w') \<Longrightarrow> length (net w') \<le> length (net w)"
  by (auto simp: request_token_with_code_def log_append_def
           split: prod.splits sum.splits if_splits dest: requests_post_net)

lemma apply_token_response_net:
  "apply_token_response r w = (x, w') \<Longrightarrow> net w' = net w"
  by (auto simp: apply_token_response_def Let_def save_config_def log_append_def
           split: sum.splits if_splits)

lemma ensure_token_code_flow_net:
  "ensure_token_code_flow ci cs w = (x, w') \<Longrightarrow> length (net w') \<le> length (net w)"
  by (auto simp: ensure_token_code_flow_def Let_def log_append_def
           split: prod.splits sum.splits if_splits
           dest!: request_token_with_code_net apply_token_response_net)

lemma ensure_token_net:
  "ensure_token w = (x, w') \<Longrightarrow> length (net w') \<le> length (net w)"
  by (auto simp: ensure_token_def Let_def log_append_def load_config_def
           split: prod.splits sum.splits if_splits bool.splits
           dest!: request_token_with_refresh_net apply_token_response_net
                  ensure_token_code_flow_net)

lemma refresh_and_retry_net:
  "refresh_and_retry url w = (x, w') \<Longrightarrow> length (net w') \<le> length (net w)"
  by (auto simp: refresh_and_retry_def Let_def log_append_def save_config_def
           split: prod.splits sum.splits
           dest!: ensure_token_net requests_get_net)

lemma fetch_page_net:
  "fetch_page url params token w = (Inr y, w') \<Longrightarrow> length (net w') < length (net w)"
  by (auto simp: fetch_page_def log_append_def
           split: prod.splits sum.splits if_splits
           dest!: requests_get_Inr_net refresh_and_retry_net)

termination fetch_loop
  by (relation "measure (\<lambda>(url, params, token, items, w). length (net w))")
     (auto dest: fetch_page_net[OF sym])

declare fetch_loop.simps [simp del]

section \<open>Applying a token response\<close>

text \<open>What a successful \<^verbatim>\<open>apply_token_response\<close> has done, field by field.\<close>

lemma apply_token_response_Inr:
  assumes "apply_token_response token_resp w = (Inr u, w')"
  shows "\<exists>d n. token_resp = JObj d \<and> truthy (dict_get d ''access_token'' JNull)
           \<and> py_int (dict_get d ''expires_in'' (JInt 0)) = Inr n
           \<and> config w' = AList.update ''expires_at'' (JInt (clock w + n))
                 ((if truthy (dict_get d ''refresh_token'' JNull)
                   then AList.update ''refresh_token'' (dict_get d ''refresh_token'' JNull) else id)
                  (AList.update ''access_token'' (dict_get d ''access_token'' JNull) (config w)))
           \<and> disk w' = Some (config w') \<and> clock w' = clock w \<and> net w' = net w
           \<and> sent w' = sent w \<and> logs w' = logs w @ [StoredToken]"
  using assms
  by (cases token_resp)
     (auto simp: apply_token_response_def Let_def save_config_def log_append_def now_ts_def
           split: sum.splits if_splits)

lemma apply_token_response_world0:
  "apply_token_response (JObj token_resp0) world0 = (Inr (), world1)"
  by (simp add: apply_token_response_def world0_def world1_def cred0_def cred1_def
        token_resp0_def dict_get_def Let_def save_config_def log_append_def now_ts_def)

lemma apply_token_response_rotating:
  "apply_token_response (JObj token_resp_rotating) world0 = (Inr (), world_rotated)"
  by (simp add: apply_token_response_def world0_def world_rotated_def cred0_def cred_rotated_def
        token_resp_rotating_def dict_get_def Let_def save_config_def log_append_def now_ts_def)

lemma apply_token_response_null:
  "apply_token_response (JObj token_resp_null) world0 = (Inr (), world1)"
  by (simp add: apply_token_response_def world0_def world1_def cred0_def cred1_def
        token_resp_null_def dict_get_def Let_def save_config_def log_append_def now_ts_def)

text \<open>
  C5. A response that is a record with a truthy \<^verbatim>\<open>access_token\<close> and an \<^verbatim>\<open>expires_in\<close> that
  \<^verbatim>\<open>int\<close> reads (0 when absent) is applied without error. When \<^verbatim>\<open>apply_token_response\<close>
  succeeds, the stored \<^verbatim>\<open>refresh_token\<close> is the response's if the response has a truthy one,
  and is what it was before otherwise, so also when the response has none or has \<^verbatim>\<open>null\<close>;
  hence if the stored \<^verbatim>\<open>refresh_token\<close> has changed, its new value is the one of the response.
  Every field other than \<^verbatim>\<open>access_token\<close>, \<^verbatim>\<open>refresh_token\<close> and \<^verbatim>\<open>expires_at\<close> is as it was.
\<close>

theorem apply_token_response_frame:
  "(truthy (dict_get d ''access_token'' JNull)
      \<and> py_int (dict_get d ''expires_in'' (JInt 0)) = Inr n \<longrightarrow>
      fst (apply_token_response (JObj d) w) = Inr ())
   \<and> (apply_token_response (JObj d) w = (Inr u, w') \<longrightarrow>
        map_of (config w') ''refresh_token''
          = (if truthy (dict_get d ''refresh_token'' JNull)
             then Some (dict_get d ''refresh_token'' JNull)
             else map_of (config w) ''refresh_token'')
        \<and> (map_of d ''refresh_token'' = None \<longrightarrow>
              map_of (config w') ''refresh_token'' = map_of (config w) ''refresh_token'')
        \<and> (map_of (config w') ''refresh_token'' \<noteq> map_of (config w) ''refresh_token'' \<longrightarrow>
              map_of (config w') ''refresh_token'' = map_of d ''refresh_token'')
        \<and> (\<forall>k. k \<notin> {''access_token'', ''refresh_token'', ''expires_at''} \<longrightarrow>
              map_of (config w') k = map_of (config w) k))"
proof (intro conjI impI)
  assume "truthy (dict_get d ''access_token'' JNull)
          \<and> py_int (dict_get d ''expires_in'' (JInt 0)) = Inr n"
  then show "fst (apply_token_response (JObj d) w) = Inr ()"
    unfolding apply_token_response_def Let_def by simp
next
  assume a: "apply_token_response (JObj d) w = (Inr u, w')"
  show "map_of (config w') ''refresh_token''
          = (if truthy (dict_get d ''refresh_token'' JNull)
             then Some (dict_get d ''refresh_token'' JNull)
             else map_of (config w) ''refresh_token'')"
    using apply_token_response_Inr[OF a] by (auto simp: update_conv')
  show "\<forall>k. k \<notin> {''access_token'', ''refresh_token'', ''expires_at''} \<longrightarrow>
              map_of (config w') k = map_of (config w) k"
    using apply_token_response_Inr[OF a] by (auto simp: update_conv')
  assume "map_of d ''refresh_token'' = None"
  then show "map_of (config w') ''refresh_token'' = map_of (config w) ''refresh_token''"
    using apply_token_response_Inr[OF a] by (auto simp: update_conv' dict_get_def)
next
  assume a: "apply_token_response (JObj d) w = (Inr u, w')"
    and "map_of (config w') ''refresh_token'' \<noteq> map_of (config w) ''refresh_token''"
  then show "map_of (config w') ''refresh_token'' = map_of d ''refresh_token''"
    using apply_token_response_Inr[OF a]
    by (auto simp: update_conv' dict_get_def split: if_splits option.splits)
qed

theorem apply_token_response_frame_witness:
  "apply_token_response (JObj token_resp_rotating) world0 = (Inr (), world_rotated)
   \<and> map_of (config world0) ''refresh_token'' = Some (JStr ''r0'')
   \<and> map_of (config world_rotated) ''refresh_token'' = Some (JStr ''r1'')
   \<and> map_of (config world_rotated) ''username'' = map_of (config world0) ''username''
   \<and> apply_token_response (JObj token_resp0) world0 = (Inr (), world1)
   \<and> map_of token_resp0 ''refresh_token'' = None
   \<and> apply_token_response (JObj token_resp_null) world0 = (Inr (), world1)
   \<and> map_of token_resp_null ''refresh_token'' = Some JNull
   \<and> map_of (config world1) ''refresh_token'' = Some (JStr ''r0'')"
proof -
  have r: "dict_get token_resp_rotating ''refresh_token'' JNull = JStr ''r1''"
    "dict_get token_resp_rotating ''access_token'' JNull = JStr ''a1''"
    "py_int (dict_get token_resp_rotating ''expires_in'' (JInt 0)) = Inr 3600"
    "dict_get token_resp0 ''refresh_token'' JNull = JNull"
    "map_of token_resp0 ''refresh_token'' = None"
    "dict_get token_resp_null ''refresh_token'' JNull = JNull"
    "map_of token_resp_null ''refresh_token'' = Some JNull"
    "map_of (config world0) ''refresh_token'' = Some (JStr ''r0'')"
    "map_of (config world0) ''username'' = Some (JStr ''spazus'')"
    by (simp_all add: token_resp_rotating_def token_resp0_def token_resp_null_def dict_get_def
          world0_def cred0_def)
  from apply_token_response_frame[of token_resp_rotating 3600 world0 "()" world_rotated]
    apply_token_response_frame[of token_resp0 3600 world0 "()" world1]
    apply_token_response_frame[of token_resp_null 3600 world0 "()" world1]
    apply_token_response_rotating apply_token_response_world0 apply_token_response_null r
  show ?thesis by simp
qed

text \<open>
  C6. If \<^verbatim>\<open>apply_token_response\<close> succeeds on a response, the clock is left as it was, and
  applying the same response again at once succeeds too and stores the same \<^verbatim>\<open>access_token\<close> and
  \<^verbatim>\<open>expires_at\<close> as the first application did.
\<close>

theorem apply_token_response_idem:
  assumes "apply_token_response token_resp w = (Inr u, w1)"
  shows "fst (apply_token_response token_resp w1) = Inr ()
       \<and> clock w1 = clock w
       \<and> map_of (config (snd (apply_token_response token_resp w1))) ''access_token''
           = map_of (config w1) ''access_token''
       \<and> map_of (config (snd (apply_token_response token_resp w1))) ''expires_at''
           = map_of (config w1) ''expires_at''"
proof -
  obtain d n where d: "token_resp = JObj d" "truthy (dict_get d ''access_token'' JNull)"
      "py_int (dict_get d ''expires_in'' (JInt 0)) = Inr n" "clock w1 = clock w"
      and c1: "config w1 = AList.update ''expires_at'' (JInt (clock w + n))
                 ((if truthy (dict_get d ''refresh_token'' JNull)
                   then AList.update ''refresh_token'' (dict_get d ''refresh_token'' JNull) else id)
                  (AList.update ''access_token'' (dict_get d ''access_token'' JNull) (config w)))"
    using apply_token_response_Inr[OF assms] by blast
  have "apply_token_response token_resp w1 = (Inr (), snd (apply_token_response token_resp w1))"
    using d by (simp add: apply_token_response_def Let_def)
  then obtain w2 where w2: "apply_token_response token_resp w1 = (Inr (), w2)" by blast
  show ?thesis
    using apply_token_response_Inr[OF w2] d c1 w2
    by (auto simp: update_conv' split: if_splits)
qed

theorem apply_token_response_idem_witness:
  "apply_token_response (JObj token_resp0) world0 = (Inr (), world1)
   \<and> fst (apply_token_response (JObj token_resp0) world1) = Inr ()
   \<and> map_of (config (snd (apply_token_response (JObj token_resp0) world1))) ''access_token''
       = Some (JStr ''a1'')
   \<and> map_of (config (snd (apply_token_response (JObj token_resp0) world1))) ''expires_at''
       = Some (JInt 4600)"
  using apply_token_response_idem[OF apply_token_response_world0] apply_token_response_world0
  by (simp add: world1_def cred1_def cred0_def)

section \<open>Getting a valid token\<close>

text \<open>What an answered request, and each successful exchange, leaves behind.\<close>

lemma receive_Inr:
  "receive w = (Inr r, w') \<Longrightarrow>
     net w = r # net w' \<and> config w' = config w \<and> disk w' = disk w
     \<and> clock w' = clock w + int (elapsed r) \<and> sent w' = sent w \<and> logs w' = logs w"
  by (auto simp: receive_def split: list.splits)

lemma requests_post_Inr:
  "requests_post url form w = (Inr r, w') \<Longrightarrow>
     net w = r # net w' \<and> config w' = config w \<and> disk w' = disk w
     \<and> clock w' = clock w + int (elapsed r) \<and> sent w' = sent w @ [Post url form]
     \<and> logs w' = logs w"
  by (auto simp: requests_post_def dest!: receive_Inr)

lemma request_token_with_refresh_Inr:
  assumes "request_token_with_refresh rt ci cs w = (Inr tr, w')"
  shows "\<exists>r. net w = r # net w' \<and> config w' = config w \<and> disk w' = disk w
           \<and> clock w' = clock w + int (elapsed r)
           \<and> (\<exists>p. sent w' = sent w @ [p])
           \<and> (truthy tr \<longrightarrow> status r = 200 \<and> payload r = Some tr)"
  using assms
  by (auto simp: request_token_with_refresh_def log_append_def resp_json_def
           split: prod.splits sum.splits if_splits option.splits dest!: requests_post_Inr)

lemma request_token_with_code_Inr:
  assumes "request_token_with_code c cv ci cs w = (Inr tr, w')"
  shows "\<exists>r. net w = r # net w' \<and> config w' = config w \<and> disk w' = disk w
           \<and> clock w' = clock w + int (elapsed r)
           \<and> (\<exists>p. sent w' = sent w @ [p])
           \<and> (truthy tr \<longrightarrow> status r = 200 \<and> payload r = Some tr)"
  using assms
  by (auto simp: request_token_with_code_def log_append_def resp_json_def
           split: prod.splits sum.splits if_splits option.splits dest!: requests_post_Inr)


lemma ensure_token_code_flow_Inr:
  assumes "ensure_token_code_flow ci cs w = (Inr u, w')"
  shows "\<exists>r d n. net w = r # net w' \<and> status r = 200 \<and> payload r = Some (JObj d)
           \<and> (\<exists>p. sent w' = sent w @ [p])
           \<and> truthy (dict_get (config w') ''access_token'' JNull)
           \<and> disk w' = Some (config w')
           \<and> py_int (dict_get d ''expires_in'' (JInt 0)) = Inr n
           \<and> map_of (config w') ''expires_at'' = Some (JInt (clock w' + n))"
  using assms
  apply (simp add: ensure_token_code_flow_def Let_def split: if_splits prod.splits sum.splits)
  apply (drule request_token_with_code_Inr)
  apply (drule apply_token_response_Inr)
  apply (auto simp: log_append_def update_conv' dict_get_def)
  done

lemma ensure_token_Inr:
  assumes "ensure_token w = (Inr u, w')"
  shows "(token_is_valid (load_config w) = Inr True \<and> w' = load_config w)
       \<or> (\<exists>pre r d n. net w = pre @ r # net w' \<and> length pre \<le> 1
             \<and> status r = 200 \<and> payload r = Some (JObj d)
             \<and> (\<exists>ps. ps \<noteq> [] \<and> sent w' = sent w @ ps)
             \<and> truthy (dict_get (config w') ''access_token'' JNull)
             \<and> disk w' = Some (config w')
             \<and> py_int (dict_get d ''expires_in'' (JInt 0)) = Inr n
             \<and> map_of (config w') ''expires_at'' = Some (JInt (clock w' + n)))"
proof (cases "token_is_valid (load_config w)")
  case (Inl e)
  with assms show ?thesis by (simp add: ensure_token_def Let_def)
next
  case (Inr b)
  show ?thesis
  proof (cases b)
    case True
    with Inr assms show ?thesis by (auto simp: ensure_token_def Let_def)
  next
    case False
    let ?w = "load_config w"
    have same: "net ?w = net w" "sent ?w = sent w" by (simp_all add: load_config_def)
    show ?thesis
    proof (cases "truthy (dict_get (config ?w) ''refresh_token'' JNull)")
      case noref: False
      with False Inr assms obtain ci cs where "ensure_token_code_flow ci cs ?w = (Inr u, w')"
        by (auto simp: ensure_token_def Let_def split: if_splits)
      from ensure_token_code_flow_Inr[OF this] same show ?thesis
        by (intro disjI2) (metis append_Nil list.size(3) zero_le not_Cons_self2)
    next
      case ref: True
      with False Inr assms obtain ci cs tr w1 where
        rq: "request_token_with_refresh (dict_get (config ?w) ''refresh_token'' JNull) ci cs
               (log_append AttemptRefresh ?w) = (Inr tr, w1)"
        and rest: "if truthy tr then apply_token_response tr w1 = (Inr u, w')
                   else ensure_token_code_flow ci cs w1 = (Inr u, w')"
        by (auto simp: ensure_token_def Let_def split: if_splits prod.splits sum.splits)
      from request_token_with_refresh_Inr[OF rq] obtain r p where
        r: "net w = r # net w1" "sent w1 = sent w @ [p]"
           "truthy tr \<longrightarrow> status r = 200 \<and> payload r = Some tr"
        by (auto simp: log_append_def load_config_def)
      show ?thesis
      proof (cases "truthy tr")
        case True
        with rest have ap: "apply_token_response tr w1 = (Inr u, w')" by simp
        from apply_token_response_Inr[OF ap] obtain d n where
          d: "tr = JObj d" "truthy (dict_get d ''access_token'' JNull)"
             "py_int (dict_get d ''expires_in'' (JInt 0)) = Inr n"
             "disk w' = Some (config w')" "clock w' = clock w1" "net w' = net w1"
             "sent w' = sent w1"
          and cfg: "config w' = AList.update ''expires_at'' (JInt (clock w1 + n))
                 ((if truthy (dict_get d ''refresh_token'' JNull)
                   then AList.update ''refresh_token'' (dict_get d ''refresh_token'' JNull) else id)
                  (AList.update ''access_token'' (dict_get d ''access_token'' JNull) (config w1)))"
          by blast
        have at: "truthy (dict_get (config w') ''access_token'' JNull)"
          using d(2) cfg by (auto simp: dict_get_def update_conv')
        have ex: "map_of (config w') ''expires_at'' = Some (JInt (clock w' + n))"
          using cfg d(5) by (simp add: update_conv')
        have "net w = [] @ r # net w'" using r d by simp
        moreover have "sent w' = sent w @ [p]" using r d by simp
        ultimately show ?thesis using True r d at ex
          by (intro disjI2) (metis list.size(3) zero_le not_Cons_self2)
      next
        case False
        with rest obtain ci cs where "ensure_token_code_flow ci cs w1 = (Inr u, w')" by auto
        from ensure_token_code_flow_Inr[OF this] obtain r2 d n p2 where
          c: "net w1 = r2 # net w'" "status r2 = 200" "payload r2 = Some (JObj d)"
             "sent w' = sent w1 @ [p2]"
             "truthy (dict_get (config w') ''access_token'' JNull)"
             "disk w' = Some (config w')"
             "py_int (dict_get d ''expires_in'' (JInt 0)) = Inr n"
             "map_of (config w') ''expires_at'' = Some (JInt (clock w' + n))"
          by blast
        have "net w = [r] @ r2 # net w'" using r c by simp
        moreover have "length [r] \<le> 1" by simp
        moreover have "sent w' = sent w @ [p, p2] \<and> [p, p2] \<noteq> []" using r c by simp
        ultimately show ?thesis using c by (intro disjI2) blast
      qed
    qed
  qed
qed


text \<open>
  C1, as the code has it. When \<^verbatim>\<open>ensure_token\<close> returns without raising, the record holds a
  truthy \<^verbatim>\<open>access_token\<close> and is the same as the record on disk. If no request was made, the
  stored \<^verbatim>\<open>expires_at\<close> is more than 60 seconds after the current time. If a token was
  exchanged, \<^verbatim>\<open>expires_at\<close> is the current time plus the \<^verbatim>\<open>expires_in\<close> of the response that
  was applied (0 when absent), and that response is the last answer received, with status 200:
  so \<^verbatim>\<open>expires_at\<close> is in the future exactly when that \<^verbatim>\<open>expires_in\<close> is positive.
\<close>

theorem ensure_token_postcondition:
  assumes "ensure_token w = (Inr u, w')"
  shows "truthy (dict_get (config w') ''access_token'' JNull)
       \<and> disk w' = Some (config w')
       \<and> (if sent w' = sent w
          then \<exists>e. py_int (dict_get (config w') ''expires_at'' (JInt 0)) = Inr e
                   \<and> clock w' + 60 < e
          else \<exists>pre r d n. net w = pre @ r # net w' \<and> length pre \<le> 1
                   \<and> status r = 200 \<and> payload r = Some (JObj d)
                   \<and> py_int (dict_get d ''expires_in'' (JInt 0)) = Inr n
                   \<and> map_of (config w') ''expires_at'' = Some (JInt (clock w' + n)))"
  using ensure_token_Inr[OF assms]
proof
  assume fast: "token_is_valid (load_config w) = Inr True \<and> w' = load_config w"
  then have v: "token_is_valid w' = Inr True" and s: "sent w' = sent w"
    by (simp_all add: load_config_def)
  from v have "truthy (dict_get (config w') ''access_token'' JNull)"
    by (auto simp: token_is_valid_def Let_def split: if_splits sum.splits)
  moreover from this fast have "disk w' = Some (config w')"
    by (auto simp: load_config_def dict_get_def split: option.splits)
  moreover from v have "\<exists>e. py_int (dict_get (config w') ''expires_at'' (JInt 0)) = Inr e
                   \<and> clock w' + 60 < e"
    by (auto simp: token_is_valid_def Let_def now_ts_def split: if_splits sum.splits)
  ultimately show ?thesis using s by simp
next
  assume "\<exists>pre r d n. net w = pre @ r # net w' \<and> length pre \<le> 1
             \<and> status r = 200 \<and> payload r = Some (JObj d)
             \<and> (\<exists>ps. ps \<noteq> [] \<and> sent w' = sent w @ ps)
             \<and> truthy (dict_get (config w') ''access_token'' JNull)
             \<and> disk w' = Some (config w')
             \<and> py_int (dict_get d ''expires_in'' (JInt 0)) = Inr n
             \<and> map_of (config w') ''expires_at'' = Some (JInt (clock w' + n))"
  then show ?thesis by auto
qed

lemma ensure_token_world_exch: "ensure_token world_exch = (Inr (), world_exch_after)"
  by (simp add: ensure_token_def load_config_def token_is_valid_def Let_def now_ts_def
        world_exch_def world_exch_after_def cred0_def cred_exch_def dict_get_def token_resp0_def
        request_token_with_refresh_def requests_post_def receive_def reply_ok_def
        resp_json_def log_append_def apply_token_response_def save_config_def refresh_form_def)

theorem ensure_token_postcondition_witness:
  "ensure_token world_exch = (Inr (), world_exch_after)
   \<and> truthy (dict_get (config world_exch_after) ''access_token'' JNull)
   \<and> disk world_exch_after = Some (config world_exch_after)
   \<and> sent world_exch_after \<noteq> sent world_exch"
  using ensure_token_postcondition[OF ensure_token_world_exch] ensure_token_world_exch
  by (simp add: world_exch_def world_exch_after_def)

lemma ensure_token_world_noexp: "ensure_token world_noexp = (Inr (), world_noexp_after)"
  by (simp add: ensure_token_def load_config_def token_is_valid_def Let_def now_ts_def
        world_noexp_def world_noexp_after_def cred0_def cred_noexp_def dict_get_def
        request_token_with_refresh_def requests_post_def receive_def reply_ok_def
        resp_json_def log_append_def apply_token_response_def save_config_def refresh_form_def)

text \<open>
  C1 as stated fails: a response with status 200 and no \<^verbatim>\<open>expires_in\<close> makes \<^verbatim>\<open>ensure_token\<close>
  return with \<^verbatim>\<open>expires_at\<close> equal to the current time, which is not strictly in the future.
\<close>

theorem ensure_token_expired_counterexample:
  "ensure_token world_noexp = (Inr (), world_noexp_after)
   \<and> map_of (config world_noexp_after) ''expires_at'' = Some (JInt 1001)
   \<and> \<not> clock world_noexp_after < 1001"
  using ensure_token_world_noexp by (simp add: world_noexp_after_def cred_noexp_def cred0_def)

text \<open>
  C2, as the code has it. When the record on disk has a truthy \<^verbatim>\<open>access_token\<close> and an
  \<^verbatim>\<open>expires_at\<close> that \<^verbatim>\<open>int\<close> reads as more than 60 seconds after the current time,
  \<^verbatim>\<open>ensure_token\<close> returns at once: the record in memory is the one on disk, and the disk, the
  clock, the answers to come, the requests made and the log are as they were.
\<close>

theorem ensure_token_fast_path:
  assumes "disk w = Some c"
    and "truthy (dict_get c ''access_token'' JNull)"
    and "py_int (dict_get c ''expires_at'' (JInt 0)) = Inr e"
    and "clock w + 60 < e"
  shows "ensure_token w = (Inr (), w\<lparr>config := c\<rparr>)"
  using assms
  by (simp add: ensure_token_def load_config_def token_is_valid_def Let_def now_ts_def)

theorem ensure_token_fast_path_witness:
  "disk world1 = Some cred1
   \<and> truthy (dict_get cred1 ''access_token'' JNull)
   \<and> py_int (dict_get cred1 ''expires_at'' (JInt 0)) = Inr 4600
   \<and> clock world1 + 60 < 4600
   \<and> ensure_token world1 = (Inr (), world1)"
proof -
  have h: "disk world1 = Some cred1" "truthy (dict_get cred1 ''access_token'' JNull)"
    "py_int (dict_get cred1 ''expires_at'' (JInt 0)) = Inr 4600" "clock world1 + 60 < 4600"
    by (simp_all add: world1_def cred1_def cred0_def dict_get_def)
  have "world1\<lparr>config := cred1\<rparr> = world1" by (simp add: world1_def)
  with ensure_token_fast_path[OF h] h show ?thesis by simp
qed


text \<open>
  C2 as stated fails on the boundary: with \<^verbatim>\<open>expires_at\<close> exactly 60 seconds after the current
  time the token does not count as valid, a refresh exchange is made and the record changes.
\<close>

theorem ensure_token_boundary_counterexample:
  "disk world_edge = Some cred_edge
   \<and> map_of cred_edge ''access_token'' = Some (JStr ''a0'')
   \<and> map_of cred_edge ''expires_at'' = Some (JInt 1060)
   \<and> clock world_edge + 60 \<le> 1060
   \<and> ensure_token world_edge = (Inr (), world_edge_after)
   \<and> sent world_edge_after \<noteq> sent world_edge
   \<and> disk world_edge_after \<noteq> disk world_edge"
  by (simp add: ensure_token_def load_config_def token_is_valid_def Let_def now_ts_def
        world_edge_def world_edge_after_def cred0_def cred_exch_def cred_edge_def dict_get_def
        token_resp0_def request_token_with_refresh_def requests_post_def receive_def
        reply_ok_def resp_json_def log_append_def apply_token_response_def save_config_def
        refresh_form_def)

section \<open>Keys of the cross-reference map\<close>

text \<open>What \<^verbatim>\<open>int\<close> makes of some strings.\<close>

lemma int_of_str_42: "int_of_str ''42'' = Some 42"
  by (simp add: int_of_str_def strip_def is_space_def is_digit_def digit_val_def
        MAX_STR_DIGITS_def)

lemma int_of_str_x: "int_of_str ''x'' = None"
  by (simp add: int_of_str_def strip_def is_space_def is_digit_def digit_val_def
        MAX_STR_DIGITS_def)

lemma int_of_str_more: "int_of_str '' -1_000 '' = Some (-1000)" "int_of_str ''1__0'' = None"
   "int_of_str ''+7'' = Some 7" "int_of_str [] = None" "int_of_str ''12_'' = None"
   "int_of_str [CHR 0x1C, CHR ''4'', CHR ''2''] = None"
  by (simp_all add: int_of_str_def strip_def is_space_def is_digit_def digit_val_def
        MAX_STR_DIGITS_def)

lemma int_of_str_too_long: "int_of_str (replicate 4301 CHR ''1'') = None"
proof -
  have d: "is_digit CHR ''1''" "\<not> is_space CHR ''1''"
    by (simp_all add: is_digit_def is_space_def)
  have r: "replicate 4301 CHR ''1'' = CHR ''1'' # replicate 4300 CHR ''1''"
    by (simp add: replicate_Suc[symmetric] del: replicate_Suc)
  have s: "strip (replicate 4301 CHR ''1'') = replicate 4301 CHR ''1''"
    unfolding strip_def r using d by (simp add: dropWhile_eq_Cons_conv rev_replicate
        dropWhile_append3 flip: replicate_append_same)
  show ?thesis
    unfolding int_of_str_def s unfolding r
    using d by (simp add: MAX_STR_DIGITS_def)
qed


text \<open>
  One turn of the loop does what the worded key says, and the map the loop builds is the
  one its keyed entries give, the later entry winning.
\<close>

lemma mal_map_loop_Cons:
  "mal_map_loop ((key, val) # rest) m =
     (case spec_crossref_key key val of
        Some n \<Rightarrow> mal_map_loop rest (AList.update n val m)
      | None \<Rightarrow> mal_map_loop rest m)"
  by (cases val)
     (auto simp: spec_crossref_key_def spec_embedded_id_def Let_def
           split: option.splits sum.splits)

lemma spec_crossref_entries_Cons:
  "spec_crossref_entries ((key, val) # rest) =
     (case spec_crossref_key key val of
        Some n \<Rightarrow> (n, val) # spec_crossref_entries rest
      | None \<Rightarrow> spec_crossref_entries rest)"
  by (simp add: spec_crossref_entries_def List.map_filter_simps split: option.splits)

lemma spec_crossref_entries_Nil: "spec_crossref_entries [] = []"
  by (simp add: spec_crossref_entries_def List.map_filter_simps)

lemma mal_map_loop_map_of:
  "map_of (mal_map_loop doc m) n =
     (case map_of (rev (spec_crossref_entries doc)) n of
        Some v \<Rightarrow> Some v
      | None \<Rightarrow> map_of m n)"
proof (induction doc arbitrary: m)
  case Nil
  then show ?case by (simp add: spec_crossref_entries_Nil)
next
  case (Cons kv doc)
  obtain key val where kv: "kv = (key, val)" by (cases kv)
  show ?case
    unfolding kv mal_map_loop_Cons spec_crossref_entries_Cons
    by (auto simp: Cons.IH update_conv' map_add_def split: option.splits)
qed

lemma mal_map_loop_distinct:
  "distinct (map fst m) \<Longrightarrow> distinct (map fst (mal_map_loop doc m))"
proof (induction doc arbitrary: m)
  case Nil
  then show ?case by simp
next
  case (Cons kv doc)
  obtain key val where kv: "kv = (key, val)" by (cases kv)
  show ?case
    unfolding kv mal_map_loop_Cons
    using Cons.prems by (auto intro!: Cons.IH distinct_update split: option.splits)
qed

lemma spec_crossref_entries_set:
  "set (spec_crossref_entries doc) = {(n, v). \<exists>k. (k, v) \<in> set doc \<and> spec_crossref_key k v = Some n}"
  by (induction doc)
     (auto simp: spec_crossref_entries_Nil spec_crossref_entries_Cons split: option.splits)

lemma spec_crossref_entries_append:
  "spec_crossref_entries (xs @ ys) = spec_crossref_entries xs @ spec_crossref_entries ys"
  by (simp add: spec_crossref_entries_def List.map_filter_def)

lemma mal_map_loop_append:
  "mal_map_loop (xs @ ys) m = mal_map_loop ys (mal_map_loop xs m)"
proof (induction xs arbitrary: m)
  case Nil
  then show ?case by simp
next
  case (Cons kv xs)
  obtain key val where kv: "kv = (key, val)" by (cases kv)
  show ?case
    using Cons.IH unfolding kv append_Cons mal_map_loop_Cons by (simp split: option.splits)
qed


text \<open>
  C7. Every record of the map built from a document is the value of an entry of the
  document, stored under the key worded in \<open>spec_crossref_key\<close>: the embedded \<^verbatim>\<open>mal_id\<close> when
  \<^verbatim>\<open>int\<close> reads it, else the string key when \<^verbatim>\<open>int\<close> reads it. The keys of the map are exactly
  the keys so derived. An entry with no such key changes nothing: the map is the same as
  if the entry were not in the document, and the loop has no error to raise. The document
  \<^verbatim>\<open>{"5": {"mal_id": 42, "imdb_id": "tt1"}}\<close> gives a map whose only key is 42.
\<close>

theorem crossref_key_derivation:
  "(\<forall>n v. map_of (mal_map_loop doc []) n = Some v \<longrightarrow>
      (\<exists>k. (k, v) \<in> set doc \<and> spec_crossref_key k v = Some n))
   \<and> dom (map_of (mal_map_loop doc [])) =
       {n. \<exists>k v. (k, v) \<in> set doc \<and> spec_crossref_key k v = Some n}
   \<and> (spec_crossref_key key val = None \<longrightarrow>
        mal_map_loop (pre @ (key, val) # post) m = mal_map_loop (pre @ post) m)
   \<and> mal_map_loop [(''5'', JObj [(''mal_id'', JInt 42), (''imdb_id'', JStr ''tt1'')])] []
       = [(42, JObj [(''mal_id'', JInt 42), (''imdb_id'', JStr ''tt1'')])]"
proof (intro conjI allI impI)
  fix n v
  assume "map_of (mal_map_loop doc []) n = Some v"
  then have "map_of (rev (spec_crossref_entries doc)) n = Some v"
    by (simp add: mal_map_loop_map_of split: option.splits)
  then have "(n, v) \<in> set (spec_crossref_entries doc)"
    by (auto dest: map_of_SomeD)
  then show "\<exists>k. (k, v) \<in> set doc \<and> spec_crossref_key k v = Some n"
    by (simp add: spec_crossref_entries_set)
next
  have "dom (map_of (mal_map_loop doc [])) = fst ` set (spec_crossref_entries doc)"
    by (auto simp: dom_def mal_map_loop_map_of map_of_eq_None_iff image_iff
             split: option.splits)
  then show "dom (map_of (mal_map_loop doc [])) =
       {n. \<exists>k v. (k, v) \<in> set doc \<and> spec_crossref_key k v = Some n}"
    unfolding spec_crossref_entries_set by force
next
  assume "spec_crossref_key key val = None"
  then show "mal_map_loop (pre @ (key, val) # post) m = mal_map_loop (pre @ post) m"
    by (simp add: mal_map_loop_append mal_map_loop_Cons del: mal_map_loop.simps)
next
  show "mal_map_loop [(''5'', JObj [(''mal_id'', JInt 42), (''imdb_id'', JStr ''tt1'')])] []
       = [(42, JObj [(''mal_id'', JInt 42), (''imdb_id'', JStr ''tt1'')])]"
    by simp
qed


theorem crossref_key_derivation_witness:
  "spec_crossref_key ''x'' doc_b = None
   \<and> mal_map_loop ([(''5'', doc_a)] @ (''x'', doc_b) # [(''42'', doc_b)]) []
       = mal_map_loop ([(''5'', doc_a)] @ [(''42'', doc_b)]) []
   \<and> map_of (mal_map_loop [(''5'', doc_a)] []) 42 = Some doc_a
   \<and> map_of (mal_map_loop [(''5'', doc_a)] []) 5 = None"
proof -
  have k: "spec_crossref_key ''x'' doc_b = None"
    by (simp add: spec_crossref_key_def spec_embedded_id_def doc_b_def int_of_str_x)
  have "map_of (mal_map_loop [(''5'', doc_a)] []) 42 = Some doc_a"
       "map_of (mal_map_loop [(''5'', doc_a)] []) 5 = None"
    by (simp_all add: doc_a_def)
  with k crossref_key_derivation[of "[(''5'', doc_a)]" "''x''" doc_b "[(''5'', doc_a)]"
      "[(''42'', doc_b)]" "[]"]
  show ?thesis by simp
qed


text \<open>
  C10. The map built from a document never has two records under one key, and when an
  entry derives the key \<open>n\<close> and no later entry of the document does, the record under \<open>n\<close>
  is that entry's value, whatever earlier entries derived \<open>n\<close>.
\<close>

theorem crossref_last_wins:
  "distinct (map fst (mal_map_loop doc []))
   \<and> (spec_crossref_key key val = Some n \<longrightarrow>
        (\<forall>kv \<in> set post. spec_crossref_key (fst kv) (snd kv) \<noteq> Some n) \<longrightarrow>
        map_of (mal_map_loop (pre @ (key, val) # post) []) n = Some val)"
proof (intro conjI impI)
  show "distinct (map fst (mal_map_loop doc []))"
    by (rule mal_map_loop_distinct) simp
next
  assume k: "spec_crossref_key key val = Some n"
    and later: "\<forall>kv \<in> set post. spec_crossref_key (fst kv) (snd kv) \<noteq> Some n"
  have "n \<notin> fst ` set (spec_crossref_entries post)"
    using later by (auto simp: spec_crossref_entries_set)
  then have "map_of (rev (spec_crossref_entries post)) n = None"
    by (simp add: map_of_eq_None_iff)
  then show "map_of (mal_map_loop (pre @ (key, val) # post) []) n = Some val"
    using k
    by (simp add: mal_map_loop_map_of spec_crossref_entries_append spec_crossref_entries_Cons
          map_add_def)
qed


theorem crossref_last_wins_witness:
  "spec_crossref_key ''5'' doc_a = Some 42
   \<and> spec_crossref_key ''42'' doc_b = Some 42
   \<and> map_of (mal_map_loop ([(''5'', doc_a)] @ (''42'', doc_b) # []) []) 42 = Some doc_b
   \<and> mal_map_loop [(''5'', doc_a), (''42'', doc_b)] [] = [(42, doc_b)]"
proof -
  have k: "spec_crossref_key ''5'' doc_a = Some 42" "spec_crossref_key ''42'' doc_b = Some 42"
    by (simp_all add: spec_crossref_key_def spec_embedded_id_def doc_a_def doc_b_def
          int_of_str_42)
  have "mal_map_loop [(''5'', doc_a), (''42'', doc_b)] [] = [(42, doc_b)]"
    by (simp add: doc_a_def doc_b_def int_of_str_42)
  with k crossref_last_wins[of "[]" "''42''" doc_b 42 "[]" "[(''5'', doc_a)]"]
  show ?thesis by simp
qed


section \<open>Merging the list with the cross-reference map\<close>

lemma add_field_cases:
  assumes "add_field mapped k keep out_key entry = Inr entry'"
  shows "entry' = entry \<or> (\<exists>v. entry' = AList.update out_key v entry)"
  using assms
  by (auto simp: add_field_def split: sum.splits bool.splits if_splits)

lemma output_entry_None:
  "output_entry item m = Inr None \<Longrightarrow> \<not> truthy (item_id item)"
  by (cases item)
     (auto simp: output_entry_def Let_def item_id_def item_node_def dict_get_def
           split: sum.splits if_splits option.splits json.splits)

lemma output_entry_node:
  assumes "output_entry item m = Inr r"
  shows "\<exists>d. item = JObj d
           \<and> (if truthy (dict_get d ''node'' JNull) then dict_get d ''node'' JNull else JObj [])
               = JObj (item_node item)"
proof -
  obtain d where item: "item = JObj d"
    using assms by (cases item) (auto simp: output_entry_def)
  show ?thesis
    using assms unfolding item
    by (cases "dict_get d ''node'' JNull")
       (auto simp: output_entry_def item_node_def Let_def split: if_splits)
qed

lemma output_entry_unfold:
  assumes "(if truthy (dict_get d ''node'' JNull) then dict_get d ''node'' JNull else JObj [])
             = JObj nd"
  shows "output_entry (JObj d) m =
           (if \<not> truthy (dict_get nd ''id'' JNull) then Inr None
            else case py_int (dict_get nd ''id'' JNull) of
                   Inl e \<Rightarrow> Inl e
                 | Inr i \<Rightarrow>
                     if truthy (case map_of m i of None \<Rightarrow> JNull | Some v \<Rightarrow> v) then
                       (case add_field (case map_of m i of None \<Rightarrow> JNull | Some v \<Rightarrow> v)
                               ''tvdb_id'' (\<lambda>v. v \<noteq> JNull \<and> v \<noteq> JStr []) ''id''
                               [(''title'', dict_get nd ''title'' JNull),
                                (''malId'', dict_get nd ''id'' JNull)] of
                          Inl e \<Rightarrow> Inl e
                        | Inr entry1 \<Rightarrow>
                            (case add_field (case map_of m i of None \<Rightarrow> JNull | Some v \<Rightarrow> v)
                                    ''imdb_id'' truthy ''imdb_id'' entry1 of
                               Inl e \<Rightarrow> Inl e
                             | Inr entry2 \<Rightarrow> Inr (Some entry2)))
                     else Inr (Some [(''title'', dict_get nd ''title'' JNull),
                                     (''malId'', dict_get nd ''id'' JNull)]))"
proof (cases "truthy (dict_get d ''node'' JNull)")
  case True
  with assms have "dict_get d ''node'' JNull = JObj nd" by simp
  with True have "nd \<noteq> []" by auto
  with \<open>dict_get d ''node'' JNull = JObj nd\<close> show ?thesis
    unfolding output_entry_def Let_def by simp
next
  case False
  with assms have "nd = []" by simp
  with False show ?thesis unfolding output_entry_def Let_def by auto
qed

lemma output_entry_Some:
  assumes "output_entry item m = Inr (Some entry)"
  shows "truthy (item_id item) \<and> well_merged m item entry"
proof -
  from output_entry_node[OF assms] obtain d where item: "item = JObj d"
    and node: "(if truthy (dict_get d ''node'' JNull) then dict_get d ''node'' JNull else JObj [])
               = JObj (item_node item)"
    by blast
  note body = assms[unfolded item output_entry_unfold[OF node], folded item_id_def, folded item]
  from body have tr: "truthy (item_id item)" by (auto split: if_splits)
  from body tr obtain i where i: "py_int (item_id item) = Inr i"
    by (auto split: if_splits sum.splits)
  define mapped where "mapped = (case map_of m i of None \<Rightarrow> JNull | Some v \<Rightarrow> v)"
  have base: "base_entry item =
      [(''title'', dict_get (item_node item) ''title'' JNull), (''malId'', item_id item)]"
    by (simp add: base_entry_def)
  show ?thesis
  proof (cases "truthy mapped")
    case False
    with body tr i have "entry = base_entry item" by (auto simp: mapped_def base)
    then show ?thesis using tr by (simp add: well_merged_def)
  next
    case True
    then have nomatch: "map_of m i \<noteq> None" by (auto simp: mapped_def split: option.splits)
    from True body tr i obtain entry1 where
      e1: "add_field mapped ''tvdb_id'' (\<lambda>v. v \<noteq> JNull \<and> v \<noteq> JStr []) ''id'' (base_entry item)
             = Inr entry1"
      and e2: "add_field mapped ''imdb_id'' truthy ''imdb_id'' entry1 = Inr entry"
      by (auto simp: mapped_def base split: sum.splits)
    from add_field_cases[OF e1]
    have c1: "entry1 = base_entry item \<or> (\<exists>v. entry1 = base_entry item @ [(''id'', v)])"
      by (auto simp: base)
    from add_field_cases[OF e2] c1
    have "\<exists>extras. entry = base_entry item @ extras
            \<and> set (map fst extras) \<subseteq> {''id'', ''imdb_id''}"
      by (auto simp: base)
    then show ?thesis using tr nomatch i by (auto simp: well_merged_def)
  qed
qed

lemma build_loop_acc:
  assumes "build_loop items m acc = Inr out"
  shows "\<exists>new. out = acc @ new
           \<and> list_all2 (well_merged m) (filter (\<lambda>it. truthy (item_id it)) items) new"
  using assms
proof (induction items arbitrary: acc)
  case Nil
  then show ?case by simp
next
  case (Cons item items)
  show ?case
  proof (cases "output_entry item m")
    case (Inl e)
    with Cons.prems show ?thesis by simp
  next
    case (Inr r)
    show ?thesis
    proof (cases r)
      case None
      with Inr Cons.prems have "build_loop items m acc = Inr out" by simp
      from Cons.IH[OF this] output_entry_None[OF Inr[unfolded None]] show ?thesis by simp
    next
      case (Some entry)
      with Inr Cons.prems have "build_loop items m (acc @ [entry]) = Inr out" by simp
      from Cons.IH[OF this] output_entry_Some[OF Inr[unfolded Some]] show ?thesis by auto
    qed
  qed
qed

lemma output_entry_unmatched:
  assumes "unmatched m item"
  shows "output_entry item m = Inr (Some (base_entry item))"
proof -
  from assms obtain d nd i where item: "item = JObj d"
    and node: "dict_get d ''node'' JNull = JObj nd"
    and tr: "truthy (dict_get nd ''id'' JNull)"
    and i: "py_int (dict_get nd ''id'' JNull) = Inr i"
    and none: "map_of m i = None"
    by (auto simp: unmatched_def split: json.splits sum.splits)
  from tr have "nd \<noteq> []" by (auto simp: dict_get_def)
  with node have "(if truthy (dict_get d ''node'' JNull) then dict_get d ''node'' JNull
                   else JObj []) = JObj nd"
    by simp
  from output_entry_unfold[OF this] tr i none
  have "output_entry (JObj d) m =
          Inr (Some [(''title'', dict_get nd ''title'' JNull), (''malId'', dict_get nd ''id'' JNull)])"
    by simp
  then show ?thesis
    by (simp add: item base_entry_def item_id_def item_node_def node)
qed

lemma build_output_list_sample: "build_output_list [item_a, item_z, item_c] map0 = Inr out0"
  by (simp add: build_output_list_def output_entry_def add_field_def dict_get_def Let_def
        item_a_def item_z_def item_c_def map0_def out0_def)

text \<open>
  C8. When the merge returns, its output lines up, in order, with the input items that have
  a truthy identifier: each output entry starts with the \<^verbatim>\<open>title\<close> and \<^verbatim>\<open>malId\<close> of its item, and
  whatever follows is under the keys \<^verbatim>\<open>id\<close> and \<^verbatim>\<open>imdb_id\<close>, with nothing following when the map has
  no record for the identifier. For such an item the loop body raises nothing: it yields
  the entry with the two base fields.
\<close>

theorem build_output_list_order:
  assumes "build_output_list items anime_ids_map = Inr out"
  shows "list_all2 (well_merged anime_ids_map) (filter (\<lambda>it. truthy (item_id it)) items) out
         \<and> (unmatched anime_ids_map item \<longrightarrow>
               output_entry item anime_ids_map = Inr (Some (base_entry item)))"
  using build_loop_acc[OF assms[unfolded build_output_list_def]]
  by (simp add: output_entry_unmatched)

theorem build_output_list_order_witness:
  "build_output_list [item_a, item_z, item_c] map0 = Inr out0
   \<and> filter (\<lambda>it. truthy (item_id it)) [item_a, item_z, item_c] = [item_a, item_c]
   \<and> list_all2 (well_merged map0) [item_a, item_c] out0
   \<and> unmatched map0 item_c
   \<and> output_entry item_c map0 = Inr (Some [(''title'', JStr ''C''), (''malId'', JInt 7)])"
proof -
  have f: "filter (\<lambda>it. truthy (item_id it)) [item_a, item_z, item_c] = [item_a, item_c]"
    by (simp add: item_id_def item_node_def dict_get_def item_a_def item_z_def item_c_def)
  have u: "unmatched map0 item_c"
    by (simp add: unmatched_def dict_get_def item_c_def map0_def)
  have b: "base_entry item_c = [(''title'', JStr ''C''), (''malId'', JInt 7)]"
    by (simp add: base_entry_def item_id_def item_node_def dict_get_def item_c_def)
  from build_output_list_order[OF build_output_list_sample, of item_c] f u b
  show ?thesis by (simp add: build_output_list_sample)
qed

lemma build_loop_append:
  "build_loop (xs @ ys) m acc =
     (case build_loop xs m acc of Inl e \<Rightarrow> Inl e | Inr a \<Rightarrow> build_loop ys m a)"
  by (induction xs arbitrary: acc) (auto split: sum.splits option.splits)

text \<open>
  C9. An item that is a record whose \<^verbatim>\<open>node\<close> is absent or falsy, or is a record whose \<^verbatim>\<open>id\<close>
  is absent or falsy (\<^verbatim>\<open>None\<close>, 0, an empty string), leaves no trace: the merge gives what
  it gives for the list without the item, the same output or the same error.
\<close>

theorem build_output_list_drops_falsy_id:
  assumes "item = JObj d"
    and "\<not> truthy (dict_get d ''node'' JNull)
         \<or> (\<exists>nd. dict_get d ''node'' JNull = JObj nd \<and> \<not> truthy (dict_get nd ''id'' JNull))"
  shows "build_output_list (pre @ item # post) anime_ids_map
           = build_output_list (pre @ post) anime_ids_map"
proof -
  have "output_entry item anime_ids_map = Inr None"
    using assms by (auto simp: output_entry_def Let_def dict_get_def)
  then show ?thesis
    by (simp add: build_output_list_def build_loop_append split: sum.splits)
qed

theorem build_output_list_drops_falsy_id_witness:
  "dict_get [(''node'', JObj [(''id'', JInt 0), (''title'', JStr ''Z'')])] ''node'' JNull
     = JObj [(''id'', JInt 0), (''title'', JStr ''Z'')]
   \<and> \<not> truthy (dict_get [(''id'', JInt 0), (''title'', JStr ''Z'')] ''id'' JNull)
   \<and> build_output_list ([item_a] @ item_z # [item_c]) map0
       = build_output_list ([item_a] @ [item_c]) map0
   \<and> build_output_list [item_a, item_c] map0 = Inr out0"
proof -
  have n: "dict_get [(''node'', JObj [(''id'', JInt 0), (''title'', JStr ''Z'')])] ''node'' JNull
             = JObj [(''id'', JInt 0), (''title'', JStr ''Z'')]"
    and z: "\<not> truthy (dict_get [(''id'', JInt 0), (''title'', JStr ''Z'')] ''id'' JNull)"
    by (simp_all add: dict_get_def)
  have "build_output_list [item_a, item_c] map0 = Inr out0"
    by (simp add: build_output_list_def output_entry_def add_field_def dict_get_def Let_def
          item_a_def item_c_def map0_def out0_def)
  with n z
    build_output_list_drops_falsy_id[of item_z
      "[(''node'', JObj [(''id'', JInt 0), (''title'', JStr ''Z'')])]" "[item_a]" "[item_c]" map0]
  show ?thesis by (simp add: item_z_def)
qed


section \<open>Recovery from a rejected token\<close>

text \<open>
  What each operation leaves of the answers to come and of the count of recoveries: the
  token manager uses up answers from the front and never enters the 401 block.
\<close>

lemma receive_used:
  "receive w = (x, w') \<Longrightarrow> (\<exists>used. net w = used @ net w') \<and> logs w' = logs w"
  by (auto simp: receive_def split: list.splits)

lemma requests_post_used:
  "requests_post url form w = (x, w') \<Longrightarrow> (\<exists>used. net w = used @ net w') \<and> logs w' = logs w"
  by (auto simp: requests_post_def dest!: receive_used)

lemma requests_get_Inr:
  "requests_get url params token w = (Inr r, w') \<Longrightarrow>
     net w = r # net w' \<and> config w' = config w \<and> disk w' = disk w
     \<and> clock w' = clock w + int (elapsed r) \<and> sent w' = sent w @ [Get url params token]
     \<and> logs w' = logs w"
  by (auto simp: requests_get_def split: json.splits dest!: receive_Inr)

lemma requests_get_Inl:
  "requests_get url params token w = (Inl e, w') \<Longrightarrow> net w' = net w \<and> logs w' = logs w"
  by (auto simp: requests_get_def receive_def split: json.splits list.splits)

lemma request_token_with_refresh_used:
  "request_token_with_refresh rt ci cs w = (x, w') \<Longrightarrow>
     (\<exists>used. net w = used @ net w') \<and> recoveries w' = recoveries w"
  by (auto simp: request_token_with_refresh_def log_append_def recoveries_def
           split: prod.splits sum.splits if_splits dest!: requests_post_used)

lemma request_token_with_code_used:
  "request_token_with_code c cv ci cs w = (x, w') \<Longrightarrow>
     (\<exists>used. net w = used @ net w') \<and> recoveries w' = recoveries w"
  by (auto simp: request_token_with_code_def log_append_def recoveries_def
           split: prod.splits sum.splits if_splits dest!: requests_post_used)

lemma apply_token_response_used:
  "apply_token_response r w = (x, w') \<Longrightarrow> net w' = net w \<and> recoveries w' = recoveries w"
  by (auto simp: apply_token_response_def Let_def save_config_def log_append_def recoveries_def
           split: sum.splits if_splits)

lemma ensure_token_code_flow_used:
  "ensure_token_code_flow ci cs w = (x, w') \<Longrightarrow>
     (\<exists>used. net w = used @ net w') \<and> recoveries w' = recoveries w"
  by (auto simp: ensure_token_code_flow_def Let_def log_append_def recoveries_def
           split: prod.splits sum.splits if_splits
           dest!: request_token_with_code_used apply_token_response_used)

lemma ensure_token_used:
  "ensure_token w = (x, w') \<Longrightarrow>
     (\<exists>used. net w = used @ net w') \<and> recoveries w' = recoveries w"
  apply (auto simp: ensure_token_def Let_def log_append_def load_config_def recoveries_def
           split: prod.splits sum.splits if_splits bool.splits
           dest!: request_token_with_refresh_used apply_token_response_used
                  ensure_token_code_flow_used)
  apply metis+
  done

lemma refresh_and_retry_used:
  assumes "refresh_and_retry url w = (x, w')"
  shows "(\<exists>used. net w = used @ net w') \<and> recoveries w' = recoveries w + 1"
proof -
  let ?w2 = "save_config ((log_append Received401 w)
               \<lparr>config := AList.delete ''access_token'' (config (log_append Received401 w))\<rparr>)"
  have w2: "net ?w2 = net w" "recoveries ?w2 = recoveries w + 1"
    by (simp_all add: save_config_def log_append_def recoveries_def)
  obtain y w3 where e: "ensure_token ?w2 = (y, w3)" by (cases "ensure_token ?w2")
  from ensure_token_used[OF e] w2 obtain u1 where
    w3: "net w = u1 @ net w3" "recoveries w3 = recoveries w + 1"
    by auto
  show ?thesis
  proof (cases y)
    case (Inl err)
    with assms e have "w' = w3" by (simp add: refresh_and_retry_def Let_def)
    with w3 show ?thesis by blast
  next
    case (Inr u)
    let ?tok = "dict_get (config w3) ''access_token'' JNull"
    obtain z w4 where g: "requests_get url [] (Some ?tok) w3 = (z, w4)"
      by (cases "requests_get url [] (Some ?tok) w3")
    with assms e Inr have w': "w' = w4"
      by (auto simp: refresh_and_retry_def Let_def split: sum.splits)
    show ?thesis
    proof (cases z)
      case (Inl err)
      from requests_get_Inl[OF g[unfolded Inl]] w3 w' show ?thesis
        by (auto simp: recoveries_def)
    next
      case (Inr resp)
      from requests_get_Inr[OF g[unfolded Inr]] w3 w'
      have "net w = (u1 @ [resp]) @ net w'" "recoveries w' = recoveries w + 1"
        by (simp_all add: recoveries_def)
      then show ?thesis by blast
    qed
  qed
qed

lemma fetch_page_recoveries:
  assumes "fetch_page url params token w = (res, w')"
  shows "\<exists>used. net w = used @ net w'
           \<and> recoveries w' \<le> recoveries w + unauthorized used
           \<and> recoveries w' \<le> recoveries w + 1
           \<and> (recoveries w' \<noteq> recoveries w \<longrightarrow> (\<exists>r rs. net w = r # rs \<and> status r = 401))"
proof -
  obtain z w1 where g: "requests_get url params (Some token) w = (z, w1)"
    by (cases "requests_get url params (Some token) w")
  show ?thesis
  proof (cases z)
    case (Inl err)
    with assms g have "w' = w1" by (simp add: fetch_page_def)
    with requests_get_Inl[OF g[unfolded Inl]] show ?thesis
      by (simp add: recoveries_def)
  next
    case (Inr resp)
    from requests_get_Inr[OF g[unfolded Inr]]
    have w1: "net w = resp # net w1" "recoveries w1 = recoveries w"
      by (simp_all add: recoveries_def)
    show ?thesis
    proof (cases "status resp = 401")
      case False
      with assms g Inr have "net w' = net w1 \<and> recoveries w' = recoveries w1"
        by (auto simp: fetch_page_def log_append_def recoveries_def
                 split: if_splits sum.splits prod.splits)
      with w1 have "net w = [resp] @ net w'" "recoveries w' = recoveries w" by simp_all
      then show ?thesis by (metis le_add1 order_refl)
    next
      case True
      obtain y w2 where r: "refresh_and_retry url w1 = (y, w2)"
        by (cases "refresh_and_retry url w1")
      from refresh_and_retry_used[OF r] obtain u2 where
        w2: "net w1 = u2 @ net w2" "recoveries w2 = recoveries w1 + 1"
        by blast
      from assms g Inr True r have "net w' = net w2 \<and> recoveries w' = recoveries w2"
        by (auto simp: fetch_page_def log_append_def recoveries_def
                 split: if_splits sum.splits prod.splits)
      with w1 w2 have n: "net w = (resp # u2) @ net w'" and c: "recoveries w' = recoveries w + 1"
        by simp_all
      have "1 \<le> unauthorized (resp # u2)" using True by (simp add: unauthorized_def)
      with n c w1 True show ?thesis
        by (intro exI[of _ "resp # u2"]) simp
    qed
  qed
qed

lemma unauthorized_append: "unauthorized (xs @ ys) = unauthorized xs + unauthorized ys"
  by (simp add: unauthorized_def)

lemma fetch_loop_recoveries:
  "fetch_loop url params token items w = (res, w') \<Longrightarrow>
     \<exists>used. net w = used @ net w' \<and> recoveries w' \<le> recoveries w + unauthorized used"
proof (induction "length (net w)" arbitrary: url params token items w rule: less_induct)
  case less
  show ?case
  proof (cases "truthy url")
    case False
    with less.prems have "w' = w" by (simp add: fetch_loop.simps)
    then show ?thesis by (simp add: unauthorized_def)
  next
    case True
    obtain y w1 where p: "fetch_page url params token w = (y, w1)"
      by (cases "fetch_page url params token w")
    from fetch_page_recoveries[OF p] obtain u1 where
      u1: "net w = u1 @ net w1" "recoveries w1 \<le> recoveries w + unauthorized u1"
      by blast
    show ?thesis
    proof (cases y)
      case (Inl err)
      with less.prems True p have "w' = w1" by (simp add: fetch_loop.simps)
      with u1 show ?thesis by blast
    next
      case (Inr v)
      obtain batch next_url token1 where v: "v = (batch, next_url, token1)" by (cases v)
      from less.prems True p Inr v
      have l: "fetch_loop next_url [] token1 (items @ batch) w1 = (res, w')"
        by (simp add: fetch_loop.simps)
      from fetch_page_net[OF p[unfolded Inr]] have "length (net w1) < length (net w)" .
      from less.hyps[OF this l] obtain u2 where
        u2: "net w1 = u2 @ net w'" "recoveries w' \<le> recoveries w1 + unauthorized u2"
        by blast
      from u1 u2 have "net w = (u1 @ u2) @ net w'"
        "recoveries w' \<le> recoveries w + unauthorized (u1 @ u2)"
        by (simp_all add: unauthorized_append)
      then show ?thesis by blast
    qed
  qed
qed

lemma fetch_all_animelist_recoveries:
  assumes "fetch_all_animelist username status_arg w = (res, w')"
  shows "\<exists>used. net w = used @ net w' \<and> recoveries w' \<le> recoveries w + unauthorized used"
proof -
  obtain y w1 where e: "ensure_token w = (y, w1)" by (cases "ensure_token w")
  from ensure_token_used[OF e] obtain u1 where
    u1: "net w = u1 @ net w1" "recoveries w1 = recoveries w"
    by blast
  show ?thesis
  proof (cases y)
    case (Inl err)
    with assms e have "w' = w1" by (simp add: fetch_all_animelist_def)
    with u1 have "net w = u1 @ net w'" "recoveries w' \<le> recoveries w + unauthorized u1"
      by simp_all
    then show ?thesis by blast
  next
    case (Inr u)
    with assms e obtain url params token where
      "fetch_loop url params token [] w1 = (res, w')"
      by (simp add: fetch_all_animelist_def Let_def)
    from fetch_loop_recoveries[OF this] obtain u2 where
      u2: "net w1 = u2 @ net w'" "recoveries w' \<le> recoveries w1 + unauthorized u2"
      by blast
    from u1 u2 have "net w = (u1 @ u2) @ net w'"
      "recoveries w' \<le> recoveries w + unauthorized (u1 @ u2)"
      by (simp_all add: unauthorized_append)
    then show ?thesis by blast
  qed
qed


lemma fetch_two401:
  "fetch_all_animelist ''spazus'' ''watching'' world_two401
     = (Inr [item_a, item_c], world_two401_after)"
  by (simp add: fetch_all_animelist_def fetch_loop.simps fetch_page_def refresh_and_retry_def
        read_page_def requests_get_def
        ensure_token_def load_config_def token_is_valid_def Let_def now_ts_def
        world_two401_def world_two401_after_def cred0_def cred_valid_def cred_renewed_def
        dict_get_def token_resp0_def page1_def page2_def reply_401_def
        list_url_def next_page_url_def MAL_API_BASE_def
        request_token_with_refresh_def requests_post_def receive_def reply_ok_def
        resp_json_def log_append_def apply_token_response_def save_config_def refresh_form_def)


lemma requests_post_gets:
  "requests_post url form w = (x, w') \<Longrightarrow> gets w' = gets w"
  by (auto simp: requests_post_def receive_def gets_def split: list.splits)

lemma request_token_with_refresh_gets:
  "request_token_with_refresh rt ci cs w = (x, w') \<Longrightarrow> gets w' = gets w"
  by (auto simp: request_token_with_refresh_def log_append_def gets_def
           split: prod.splits sum.splits if_splits dest!: requests_post_gets)

lemma request_token_with_code_gets:
  "request_token_with_code c cv ci cs w = (x, w') \<Longrightarrow> gets w' = gets w"
  by (auto simp: request_token_with_code_def log_append_def gets_def
           split: prod.splits sum.splits if_splits dest!: requests_post_gets)

lemma apply_token_response_gets:
  "apply_token_response r w = (x, w') \<Longrightarrow> gets w' = gets w"
  by (auto simp: apply_token_response_def Let_def save_config_def log_append_def gets_def
           split: sum.splits if_splits)

lemma ensure_token_code_flow_gets:
  "ensure_token_code_flow ci cs w = (x, w') \<Longrightarrow> gets w' = gets w"
  by (auto simp: ensure_token_code_flow_def Let_def log_append_def gets_def
           split: prod.splits sum.splits if_splits
           dest!: request_token_with_code_gets apply_token_response_gets)

lemma ensure_token_gets:
  "ensure_token w = (x, w') \<Longrightarrow> gets w' = gets w"
  by (auto simp: ensure_token_def Let_def log_append_def load_config_def gets_def
           split: prod.splits sum.splits if_splits bool.splits
           dest!: request_token_with_refresh_gets apply_token_response_gets
                  ensure_token_code_flow_gets)

lemma requests_get_gets:
  "requests_get url params token w = (x, w') \<Longrightarrow> gets w' \<le> gets w + 1"
  by (auto simp: requests_get_def receive_def gets_def split: json.splits list.splits)

lemma refresh_and_retry_unfold:
  "refresh_and_retry url w =
     (case ensure_token (token_discarded w) of
        (Inl e, w3) \<Rightarrow> (Inl e, w3)
      | (Inr u, w3) \<Rightarrow>
          (case requests_get url [] (Some (dict_get (config w3) ''access_token'' JNull)) w3 of
             (Inl e, w4) \<Rightarrow> (Inl e, w4)
           | (Inr resp, w4) \<Rightarrow> (Inr (resp, dict_get (config w3) ''access_token'' JNull), w4)))"
  unfolding refresh_and_retry_def token_discarded_def Let_def by simp

lemma refresh_and_retry_gets:
  assumes "refresh_and_retry url w = (x, w')"
  shows "gets w' \<le> gets w + 1"
proof -
  have d: "gets (token_discarded w) = gets w"
    by (simp add: token_discarded_def save_config_def log_append_def gets_def)
  obtain y w3 where e: "ensure_token (token_discarded w) = (y, w3)"
    by (cases "ensure_token (token_discarded w)")
  from ensure_token_gets[OF e] d have w3: "gets w3 = gets w" by simp
  show ?thesis
  proof (cases y)
    case (Inl err)
    with assms e w3 show ?thesis by (simp add: refresh_and_retry_unfold)
  next
    case (Inr u)
    obtain z w4 where g: "requests_get url [] (Some (dict_get (config w3) ''access_token'' JNull)) w3
                            = (z, w4)"
      by (cases "requests_get url [] (Some (dict_get (config w3) ''access_token'' JNull)) w3")
    with assms e Inr have "w' = w4"
      by (auto simp: refresh_and_retry_unfold split: sum.splits)
    with requests_get_gets[OF g] w3 show ?thesis by simp
  qed
qed

lemma requests_get_first:
  assumes "net w = r1 # rest"
  shows "requests_get (JStr u) params token w
           = (Inr r1, w\<lparr>sent := sent w @ [Get (JStr u) params token],
                          clock := clock w + int (elapsed r1), net := rest\<rparr>)"
  using assms by (simp add: requests_get_def receive_def)

lemma fetch_page_first_401:
  assumes "net w = r1 # rest" and "status r1 = 401"
    and "fetch_page (JStr u) params token w = (res, w')"
  shows "recoveries w' = recoveries w + 1 \<and> gets w' \<le> gets w + 2"
proof -
  define w1 where "w1 = w\<lparr>sent := sent w @ [Get (JStr u) params (Some token)],
                          clock := clock w + int (elapsed r1), net := rest\<rparr>"
  have g: "requests_get (JStr u) params (Some token) w = (Inr r1, w1)"
    unfolding w1_def by (rule requests_get_first[OF assms(1)])
  have w1: "recoveries w1 = recoveries w" "gets w1 = gets w + 1"
    by (simp_all add: w1_def recoveries_def gets_def)
  obtain y w2 where r: "refresh_and_retry (JStr u) w1 = (y, w2)"
    by (cases "refresh_and_retry (JStr u) w1")
  from refresh_and_retry_used[OF r] refresh_and_retry_gets[OF r] w1
  have w2: "recoveries w2 = recoveries w + 1" "gets w2 \<le> gets w + 2"
    by simp_all
  from assms(2,3) g r have "recoveries w' = recoveries w2 \<and> gets w' = gets w2"
    by (auto simp: fetch_page_def log_append_def recoveries_def gets_def
             split: if_splits sum.splits prod.splits)
  with w2 show ?thesis by simp
qed

lemma token_discarded_no_token:
  "map_of (config (token_discarded w)) ''access_token'' = None
   \<and> disk (token_discarded w) = Some (config (token_discarded w))"
  by (simp add: token_discarded_def save_config_def log_append_def delete_conv')

lemma ensure_token_after_discard:
  assumes "ensure_token (token_discarded w) = (Inr u, w3)"
  shows "sent w3 \<noteq> sent w \<and> truthy (dict_get (config w3) ''access_token'' JNull)"
proof -
  have s: "sent (token_discarded w) = sent w"
    by (simp add: token_discarded_def save_config_def log_append_def)
  have "token_is_valid (load_config (token_discarded w)) = Inr False"
    using token_discarded_no_token[of w]
    by (simp add: token_is_valid_def load_config_def dict_get_def Let_def)
  with ensure_token_Inr[OF assms] s show ?thesis by auto
qed

lemma fetch_loop_second_failure:
  assumes "net w = r1 # rest" and "status r1 = 401" and "u \<noteq> []"
    and "ensure_token (token_discarded (snd (requests_get (JStr u) params (Some token) w)))
           = (Inr (), w3)"
    and "net w3 = r2 # rest2" and "status r2 \<noteq> 200"
  shows "fetch_loop (JStr u) params token items w
           = (Inl (FetchFailed (status r2) (body_text r2)),
              log_append (FetchFailedLog (status r2) (body_text r2))
                (w3\<lparr>sent := sent w3
                          @ [Get (JStr u) [] (Some (dict_get (config w3) ''access_token'' JNull))],
                    clock := clock w3 + int (elapsed r2), net := rest2\<rparr>))"
proof -
  define w1 where "w1 = w\<lparr>sent := sent w @ [Get (JStr u) params (Some token)],
                          clock := clock w + int (elapsed r1), net := rest\<rparr>"
  define tok where "tok = dict_get (config w3) ''access_token'' JNull"
  define w4 where "w4 = w3\<lparr>sent := sent w3 @ [Get (JStr u) [] (Some tok)],
                           clock := clock w3 + int (elapsed r2), net := rest2\<rparr>"
  have g: "requests_get (JStr u) params (Some token) w = (Inr r1, w1)"
    unfolding w1_def by (rule requests_get_first[OF assms(1)])
  with assms(4) have e: "ensure_token (token_discarded w1) = (Inr (), w3)" by simp
  have g2: "requests_get (JStr u) [] (Some tok) w3 = (Inr r2, w4)"
    unfolding w4_def by (rule requests_get_first[OF assms(5)])
  have r: "refresh_and_retry (JStr u) w1 = (Inr (r2, tok), w4)"
    using e g2 by (simp add: refresh_and_retry_unfold tok_def)
  have p: "fetch_page (JStr u) params token w
             = (Inl (FetchFailed (status r2) (body_text r2)),
                log_append (FetchFailedLog (status r2) (body_text r2)) w4)"
    using g r assms(2,6) by (simp add: fetch_page_def)
  show ?thesis
    using p assms(3) by (simp add: fetch_loop.simps w4_def tok_def)
qed

lemma fetch_page_401_twice:
  "fetch_page (JStr next_page_url) [] (JStr ''a0'') world_401_twice
     = (Inl (FetchFailed 401 ''unauthorized''), world_401_twice_after)"
  by (simp add: fetch_page_def refresh_and_retry_def requests_get_def
        ensure_token_def load_config_def token_is_valid_def Let_def now_ts_def
        world_401_twice_def world_401_twice_after_def cred0_def cred_valid_def cred_renewed_def
        dict_get_def token_resp0_def reply_401_def next_page_url_def
        request_token_with_refresh_def requests_post_def receive_def reply_ok_def
        resp_json_def log_append_def apply_token_response_def save_config_def refresh_form_def)

lemma ensure_token_401_twice:
  "ensure_token (token_discarded
       (snd (requests_get (JStr next_page_url) [] (Some (JStr ''a0'')) world_401_twice)))
     = (Inr (), world_renewed)"
  by (simp add: token_discarded_def requests_get_def
        ensure_token_def load_config_def token_is_valid_def Let_def now_ts_def
        world_401_twice_def world_renewed_def cred0_def cred_valid_def cred_renewed_def
        dict_get_def token_resp0_def reply_401_def next_page_url_def
        request_token_with_refresh_def requests_post_def receive_def reply_ok_def
        resp_json_def log_append_def apply_token_response_def save_config_def refresh_form_def)

lemma fetch_page_recoveries_exact:
  assumes "fetch_page url params token w = (res, w')"
  shows "recoveries w' = recoveries w
           + (if \<exists>u r rs. url = JStr u \<and> net w = r # rs \<and> status r = 401 then 1 else 0)"
proof (cases "\<exists>u r rs. url = JStr u \<and> net w = r # rs \<and> status r = 401")
  case True
  then obtain u r rs where "url = JStr u" "net w = r # rs" "status r = 401" by blast
  with fetch_page_first_401[of w r rs u params token res w'] assms True
  show ?thesis by simp
next
  case False
  show ?thesis
  proof (cases "\<exists>u. url = JStr u")
    case True
    with False have "\<not> (\<exists>r rs. net w = r # rs \<and> status r = 401)" by blast
    with fetch_page_recoveries[OF assms] False show ?thesis by auto
  next
    case nostr: False
    then have "requests_get url params (Some token) w = (Inl RequestError, w)"
      by (cases url) (simp_all add: requests_get_def)
    with assms have "w' = w" by (simp add: fetch_page_def)
    with False show ?thesis by simp
  qed
qed

lemma fetch_page_recovered:
  assumes "net w = r1 # rest" and "status r1 = 401"
    and "fetch_page (JStr u) params token w = (Inr (batch, next_url, token'), w')"
  shows "\<exists>w3. ensure_token (token_discarded (snd (requests_get (JStr u) params (Some token) w)))
                 = (Inr (), w3)
           \<and> sent w3 \<noteq> sent w @ [Get (JStr u) params (Some token)]
           \<and> token' = dict_get (config w3) ''access_token'' JNull
           \<and> truthy token'
           \<and> sent w' = sent w3 @ [Get (JStr u) [] (Some token')]
           \<and> config w' = config w3 \<and> disk w' = disk w3"
proof -
  define w1 where "w1 = w\<lparr>sent := sent w @ [Get (JStr u) params (Some token)],
                          clock := clock w + int (elapsed r1), net := rest\<rparr>"
  have g: "requests_get (JStr u) params (Some token) w = (Inr r1, w1)"
    unfolding w1_def by (rule requests_get_first[OF assms(1)])
  have s1: "sent w1 = sent w @ [Get (JStr u) params (Some token)]" by (simp add: w1_def)
  from assms(2,3) g obtain resp2 w2 where
    r: "refresh_and_retry (JStr u) w1 = (Inr (resp2, token'), w2)" and w': "w' = w2"
    by (auto simp: fetch_page_def split: if_splits sum.splits prod.splits)
  obtain y w3 where e: "ensure_token (token_discarded w1) = (y, w3)"
    by (cases "ensure_token (token_discarded w1)")
  with r obtain uu where y: "y = Inr uu"
    by (cases y) (simp_all add: refresh_and_retry_unfold)
  then have e': "ensure_token (token_discarded w1) = (Inr (), w3)" using e by simp
  from r e y have tok: "token' = dict_get (config w3) ''access_token'' JNull"
    and g2: "requests_get (JStr u) [] (Some token') w3 = (Inr resp2, w2)"
    by (auto simp: refresh_and_retry_unfold split: sum.splits prod.splits)
  from requests_get_Inr[OF g2] w'
  have "sent w' = sent w3 @ [Get (JStr u) [] (Some token')]" "config w' = config w3"
    "disk w' = disk w3"
    by simp_all
  with ensure_token_after_discard[OF e'] e' tok s1 g show ?thesis by simp
qed

lemma fetch_page_first_page:
  "fetch_page (JStr list_url) [(''status'', JStr ''watching''), (''limit'', JInt 100)]
       (JStr ''a0'') world_two401
     = (Inr ([item_a], JStr next_page_url, JStr ''a1''), world_first_page)"
  by (simp add: fetch_page_def refresh_and_retry_def read_page_def requests_get_def
        ensure_token_def load_config_def token_is_valid_def Let_def now_ts_def
        world_two401_def world_first_page_def cred0_def cred_valid_def cred_renewed_def
        dict_get_def token_resp0_def page1_def page2_def reply_401_def
        list_url_def next_page_url_def
        request_token_with_refresh_def requests_post_def receive_def reply_ok_def
        resp_json_def log_append_def apply_token_response_def save_config_def refresh_form_def)

text \<open>
  C3 as stated fails: in one call, the first request of each of two pages is answered with
  401, both recoveries succeed, and the call returns the items of both pages having gone
  through the recovery twice. The request repeated for the first page goes to the same URL
  but without the query parameters of the request it repeats.
\<close>

theorem fetch_recovers_twice_counterexample:
  "fetch_all_animelist ''spazus'' ''watching'' world_two401
     = (Inr [item_a, item_c], world_two401_after)
   \<and> recoveries world_two401 = 0
   \<and> recoveries world_two401_after = 2
   \<and> take 3 (sent world_two401_after)
       = [Get (JStr list_url) [(''status'', JStr ''watching''), (''limit'', JInt 100)]
            (Some (JStr ''a0'')),
          Post MAL_TOKEN_URL refresh_form,
          Get (JStr list_url) [] (Some (JStr ''a1''))]"
  using fetch_two401
  by (simp add: recoveries_def world_two401_def world_two401_after_def)

text \<open>
  C3, as the code has it. \<open>recoveries\<close> counts the times the block under the 401 test has
  been entered (each entry logs once). One turn of the page loop enters it once when the
  answer to the turn's first request has status 401 and not at all otherwise. When such a
  turn ends well, the recovery has asked for a token in the state where the record has lost
  its \<^verbatim>\<open>access_token\<close> in memory and on disk, at least one request was made to get a new one,
  and the last request of the turn is one more GET to the same URL that carries the new
  token. Over a whole call, the block is entered at most as many times as answers with
  status 401 were received.
\<close>

theorem recovery_once_per_page:
  "(fetch_page url params token w = (res, w') \<longrightarrow>
      recoveries w' = recoveries w
        + (if \<exists>u r rs. url = JStr u \<and> net w = r # rs \<and> status r = 401 then 1 else 0))
   \<and> (net w = r1 # rest \<and> status r1 = 401
        \<and> fetch_page (JStr u) params token w = (Inr (batch, next_url, token'), w') \<longrightarrow>
        map_of (config (token_discarded (snd (requests_get (JStr u) params (Some token) w))))
          ''access_token'' = None
        \<and> disk (token_discarded (snd (requests_get (JStr u) params (Some token) w)))
            = Some (config (token_discarded
                 (snd (requests_get (JStr u) params (Some token) w))))
        \<and> (\<exists>w3. ensure_token
                   (token_discarded (snd (requests_get (JStr u) params (Some token) w)))
                 = (Inr (), w3)
               \<and> sent w3 \<noteq> sent w @ [Get (JStr u) params (Some token)]
               \<and> token' = dict_get (config w3) ''access_token'' JNull
               \<and> truthy token'
               \<and> sent w' = sent w3 @ [Get (JStr u) [] (Some token')]
               \<and> config w' = config w3 \<and> disk w' = disk w3))
   \<and> (fetch_all_animelist username status_arg w0 = (res0, w0') \<longrightarrow>
        (\<exists>used. net w0 = used @ net w0'
           \<and> recoveries w0' \<le> recoveries w0 + unauthorized used))"
proof (intro conjI impI)
  assume "fetch_page url params token w = (res, w')"
  then show "recoveries w' = recoveries w
        + (if \<exists>u r rs. url = JStr u \<and> net w = r # rs \<and> status r = 401 then 1 else 0)"
    by (rule fetch_page_recoveries_exact)
next
  let ?w1 = "snd (requests_get (JStr u) params (Some token) w)"
  show "map_of (config (token_discarded ?w1)) ''access_token'' = None"
    and "disk (token_discarded ?w1) = Some (config (token_discarded ?w1))"
    using token_discarded_no_token[of ?w1] by simp_all
  assume "net w = r1 # rest \<and> status r1 = 401
        \<and> fetch_page (JStr u) params token w = (Inr (batch, next_url, token'), w')"
  then have "net w = r1 # rest" "status r1 = 401"
    "fetch_page (JStr u) params token w = (Inr (batch, next_url, token'), w')"
    by simp_all
  then show "\<exists>w3. ensure_token (token_discarded ?w1) = (Inr (), w3)
               \<and> sent w3 \<noteq> sent w @ [Get (JStr u) params (Some token)]
               \<and> token' = dict_get (config w3) ''access_token'' JNull
               \<and> truthy token'
               \<and> sent w' = sent w3 @ [Get (JStr u) [] (Some token')]
               \<and> config w' = config w3 \<and> disk w' = disk w3"
    by (rule fetch_page_recovered)
next
  assume "fetch_all_animelist username status_arg w0 = (res0, w0')"
  then show "\<exists>used. net w0 = used @ net w0'
           \<and> recoveries w0' \<le> recoveries w0 + unauthorized used"
    by (rule fetch_all_animelist_recoveries)
qed

theorem recovery_once_per_page_witness:
  "net world_two401 = reply_401 # tl (net world_two401)
   \<and> status reply_401 = 401
   \<and> fetch_page (JStr list_url) [(''status'', JStr ''watching''), (''limit'', JInt 100)]
         (JStr ''a0'') world_two401
       = (Inr ([item_a], JStr next_page_url, JStr ''a1''), world_first_page)
   \<and> recoveries world_two401 = 0
   \<and> recoveries world_first_page = 1
   \<and> map_of (config world_first_page) ''access_token'' = Some (JStr ''a1'')
   \<and> last (sent world_first_page) = Get (JStr list_url) [] (Some (JStr ''a1''))
   \<and> fetch_all_animelist ''spazus'' ''watching'' world_two401
       = (Inr [item_a, item_c], world_two401_after)
   \<and> unauthorized (net world_two401) = 2
   \<and> recoveries world_two401_after \<le> recoveries world_two401 + unauthorized (net world_two401)"
proof -
  have c: "net world_two401 = reply_401 # tl (net world_two401)" "status reply_401 = 401"
    "recoveries world_two401 = 0" "recoveries world_first_page = 1"
    "unauthorized (net world_two401) = 2" "net world_two401_after = []"
    "map_of (config world_first_page) ''access_token'' = Some (JStr ''a1'')"
    "last (sent world_first_page) = Get (JStr list_url) [] (Some (JStr ''a1''))"
    by (simp_all add: recoveries_def unauthorized_def world_first_page_def
          world_two401_def world_two401_after_def reply_401_def reply_ok_def
          cred_renewed_def cred0_def)
  from recovery_once_per_page[of "JStr list_url"
      "[(''status'', JStr ''watching''), (''limit'', JInt 100)]" "JStr ''a0''" world_two401
      "Inr ([item_a], JStr next_page_url, JStr ''a1'')" world_first_page
      reply_401 "tl (net world_two401)" list_url "[item_a]" "JStr next_page_url" "JStr ''a1''"
      "''spazus''" "''watching''" world_two401 "Inr [item_a, item_c]" world_two401_after]
    fetch_page_first_page fetch_two401 c
  show ?thesis by simp
qed

lemma fetch_late_401:
  "fetch_all_animelist ''spazus'' ''watching'' world_late_401
     = (Inl (FetchFailed 401 ''unauthorized''), world_late_401_after)"
  by (simp add: fetch_all_animelist_def fetch_loop.simps fetch_page_def refresh_and_retry_def
        read_page_def requests_get_def
        ensure_token_def load_config_def token_is_valid_def Let_def now_ts_def
        world_late_401_def world_late_401_after_def cred0_def cred_valid_def cred_renewed_def
        dict_get_def token_resp0_def page1_def reply_401_def
        list_url_def next_page_url_def MAL_API_BASE_def
        request_token_with_refresh_def requests_post_def receive_def reply_ok_def
        resp_json_def log_append_def apply_token_response_def save_config_def refresh_form_def)

text \<open>
  C4. Take a turn of the page loop whose first request is answered with status 401. Whatever
  follows, the turn enters the recovery exactly once and sends at most two GET requests.
  The recovery asks for a token in a state whose record, in memory and on disk, has no
  \<^verbatim>\<open>access_token\<close>; if that succeeds, at least one request was made for it and the record
  holds a truthy token. If then the answer to the repeated request has a status other than
  200 (a second 401 included), the loop ends there: the fetch raises the error carrying
  that status and body, after exactly one repeated GET to the same URL with the new token.
\<close>

theorem retry_once_then_fail:
  assumes "net w = r1 # rest" and "status r1 = 401"
  shows "(fetch_page (JStr u) params token w = (res, w') \<longrightarrow>
            recoveries w' = recoveries w + 1 \<and> gets w' \<le> gets w + 2)
       \<and> (ensure_token (token_discarded (snd (requests_get (JStr u) params (Some token) w)))
            = (Inr (), w3) \<longrightarrow>
            map_of (config (token_discarded (snd (requests_get (JStr u) params (Some token) w))))
              ''access_token'' = None
            \<and> disk (token_discarded (snd (requests_get (JStr u) params (Some token) w)))
                = Some (config (token_discarded
                     (snd (requests_get (JStr u) params (Some token) w))))
            \<and> sent w3 \<noteq> sent (snd (requests_get (JStr u) params (Some token) w))
            \<and> truthy (dict_get (config w3) ''access_token'' JNull)
            \<and> (u \<noteq> [] \<longrightarrow> net w3 = r2 # rest2 \<longrightarrow> status r2 \<noteq> 200 \<longrightarrow>
                 fetch_loop (JStr u) params token items w
                   = (Inl (FetchFailed (status r2) (body_text r2)),
                      log_append (FetchFailedLog (status r2) (body_text r2))
                        (w3\<lparr>sent := sent w3
                               @ [Get (JStr u) []
                                    (Some (dict_get (config w3) ''access_token'' JNull))],
                            clock := clock w3 + int (elapsed r2), net := rest2\<rparr>))))"
proof (intro conjI impI)
  assume "fetch_page (JStr u) params token w = (res, w')"
  from fetch_page_first_401[OF assms this]
  show "recoveries w' = recoveries w + 1" and "gets w' \<le> gets w + 2" by simp_all
next
  let ?w1 = "snd (requests_get (JStr u) params (Some token) w)"
  show "map_of (config (token_discarded ?w1)) ''access_token'' = None"
    and "disk (token_discarded ?w1) = Some (config (token_discarded ?w1))"
    using token_discarded_no_token[of ?w1] by simp_all
  assume e: "ensure_token (token_discarded ?w1) = (Inr (), w3)"
  from ensure_token_after_discard[OF e]
  show "sent w3 \<noteq> sent ?w1" and "truthy (dict_get (config w3) ''access_token'' JNull)"
    by simp_all
  assume u: "u \<noteq> []" and r2: "net w3 = r2 # rest2" "status r2 \<noteq> 200"
  from assms u e r2
  show "fetch_loop (JStr u) params token items w
          = (Inl (FetchFailed (status r2) (body_text r2)),
             log_append (FetchFailedLog (status r2) (body_text r2))
               (w3\<lparr>sent := sent w3
                      @ [Get (JStr u) [] (Some (dict_get (config w3) ''access_token'' JNull))],
                   clock := clock w3 + int (elapsed r2), net := rest2\<rparr>))"
    by (rule fetch_loop_second_failure)
qed

theorem retry_once_then_fail_witness:
  "net world_401_twice = reply_401 # [reply_ok (JObj token_resp0), reply_401]
   \<and> status reply_401 = 401
   \<and> fetch_page (JStr next_page_url) [] (JStr ''a0'') world_401_twice
       = (Inl (FetchFailed 401 ''unauthorized''), world_401_twice_after)
   \<and> recoveries world_401_twice_after = recoveries world_401_twice + 1
   \<and> gets world_401_twice_after \<le> gets world_401_twice + 2
   \<and> ensure_token (token_discarded
         (snd (requests_get (JStr next_page_url) [] (Some (JStr ''a0'')) world_401_twice)))
       = (Inr (), world_renewed)
   \<and> net world_renewed = reply_401 # []
   \<and> fetch_loop (JStr next_page_url) [] (JStr ''a0'') [] world_401_twice
       = (Inl (FetchFailed 401 ''unauthorized''), world_401_twice_after)
   \<and> fetch_all_animelist ''spazus'' ''watching'' world_late_401
       = (Inl (FetchFailed 401 ''unauthorized''), world_late_401_after)
   \<and> recoveries world_late_401_after = recoveries world_late_401 + 1"
proof -
  have late: "recoveries world_late_401_after = recoveries world_late_401 + 1"
    by (simp add: recoveries_def world_late_401_def world_late_401_after_def)
  have n: "net world_401_twice = reply_401 # [reply_ok (JObj token_resp0), reply_401]"
    and s: "status reply_401 = 401"
    and n3: "net world_renewed = reply_401 # []"
    and u: "next_page_url \<noteq> []"
    and s2: "status reply_401 \<noteq> 200"
    by (simp_all add: world_401_twice_def world_renewed_def reply_401_def next_page_url_def)
  have f: "log_append (FetchFailedLog (status reply_401) (body_text reply_401))
             (world_renewed\<lparr>sent := sent world_renewed
                  @ [Get (JStr next_page_url) []
                       (Some (dict_get (config world_renewed) ''access_token'' JNull))],
                clock := clock world_renewed + int (elapsed reply_401), net := []\<rparr>)
           = world_401_twice_after"
    and b: "FetchFailed (status reply_401) (body_text reply_401)
              = FetchFailed 401 ''unauthorized''"
    by (simp_all add: log_append_def world_renewed_def world_401_twice_after_def reply_401_def
          cred_renewed_def cred0_def dict_get_def)
  from retry_once_then_fail[OF n s, of next_page_url "[]" "JStr ''a0''"
      "Inl (FetchFailed 401 ''unauthorized'')" world_401_twice_after world_renewed
      reply_401 "[]" "[]"]
    fetch_page_401_twice ensure_token_401_twice fetch_late_401 late n s n3 u s2 f b
  show ?thesis by simp
qed


end
